theory Spec2Isabelle
  imports Main "HOL-Library.Char_ord" "HOL-Library.List_Lexorder" "HOL-Library.Sublist"
begin

section \<open>Python strings\<close>

text \<open>
  The strings of \<^verbatim>\<open>msk/actions/create.py\<close> are modelled as \<^typ>\<open>string\<close>, whose characters
  are bytes: the model is one of ASCII text. Only the ASCII letters are cased, every other
  character is left alone by \<open>lower\<close>, \<open>upper\<close>, \<open>capitalize\<close> and \<open>title\<close>, and only the ASCII
  digits are digits for \<open>isdigit\<close>. On text with other letters or digits (\<^verbatim>\<open>str.isdigit\<close> is
  also true of U+0663 and U+00B2, \<^verbatim>\<open>str.capitalize\<close> also cases the KELVIN SIGN) Python
  does more than these definitions say, and nothing below is stated about such text.
\<close>

definition NL :: string where
  "NL = [CHR 0x0A]"

definition SQ :: string where
  "SQ = [CHR 0x27]"

definition upper_letters :: string where
  "upper_letters = ''ABCDEFGHIJKLMNOPQRSTUVWXYZ''"

definition lower_letters :: string where
  "lower_letters = ''abcdefghijklmnopqrstuvwxyz''"

definition digits :: string where
  "digits = ''0123456789''"

definition to_lower :: "char \<Rightarrow> char" where
  "to_lower c = (case map_of (zip upper_letters lower_letters) c of Some d \<Rightarrow> d | None \<Rightarrow> c)"

definition to_upper :: "char \<Rightarrow> char" where
  "to_upper c = (case map_of (zip lower_letters upper_letters) c of Some d \<Rightarrow> d | None \<Rightarrow> c)"

definition is_alpha :: "char \<Rightarrow> bool" where
  "is_alpha c = (c \<in> set upper_letters \<or> c \<in> set lower_letters)"

text \<open>\<^verbatim>\<open>str.lower()\<close>, \<^verbatim>\<open>str.upper()\<close>.\<close>

definition lower :: "string \<Rightarrow> string" where
  "lower s = map to_lower s"

definition upper :: "string \<Rightarrow> string" where
  "upper s = map to_upper s"

text \<open>\<^verbatim>\<open>str.capitalize()\<close>: the first character upper-cased, all the others lower-cased.\<close>

fun capitalize :: "string \<Rightarrow> string" where
  "capitalize [] = []"
| "capitalize (c # cs) = to_upper c # map to_lower cs"

text \<open>
  \<^verbatim>\<open>str.title()\<close>: a letter that follows a letter is lower-cased, any other letter is
  upper-cased.
\<close>

fun title_from :: "bool \<Rightarrow> string \<Rightarrow> string" where
  "title_from prev [] = []"
| "title_from prev (c # cs) =
     (if is_alpha c then (if prev then to_lower c else to_upper c) # title_from True cs
      else c # title_from False cs)"

definition title :: "string \<Rightarrow> string" where
  "title s = title_from False s"

text \<open>\<^verbatim>\<open>s.replace(a, b)\<close> for one-character \<open>a\<close> and \<open>b\<close>, the only use the source makes of it.\<close>

definition replace :: "char \<Rightarrow> char \<Rightarrow> string \<Rightarrow> string" where
  "replace a b s = map (\<lambda>c. if c = a then b else c) s"

text \<open>\<^verbatim>\<open>s.strip(chars)\<close>: the characters of \<open>chars\<close> removed from both ends.\<close>

definition strip :: "string \<Rightarrow> string \<Rightarrow> string" where
  "strip chars s = rev (dropWhile (\<lambda>c. c \<in> set chars) (rev (dropWhile (\<lambda>c. c \<in> set chars) s)))"

text \<open>\<^verbatim>\<open>s.split(sep)\<close> for a one-character separator: never the empty list.\<close>

fun py_split :: "char \<Rightarrow> string \<Rightarrow> string list" where
  "py_split sep [] = [[]]"
| "py_split sep (c # cs) =
     (if c = sep then [] # py_split sep cs
      else (case py_split sep cs of t # ts \<Rightarrow> (c # t) # ts | [] \<Rightarrow> [[c]]))"

text \<open>\<^verbatim>\<open>sep.join(xs)\<close>.\<close>

fun py_join :: "string \<Rightarrow> string list \<Rightarrow> string" where
  "py_join sep [] = []"
| "py_join sep [x] = x"
| "py_join sep (x # y # ys) = x @ sep @ py_join sep (y # ys)"

text \<open>\<^verbatim>\<open>s.isdigit()\<close> and \<^verbatim>\<open>int(s)\<close> on ASCII digits.\<close>

definition isdigit :: "string \<Rightarrow> bool" where
  "isdigit s = (s \<noteq> [] \<and> (\<forall>c \<in> set s. c \<in> set digits))"

definition digit_value :: "char \<Rightarrow> int" where
  "digit_value c = (case map_of (zip digits [0, 1, 2, 3, 4, 5, 6, 7, 8, 9]) c of Some d \<Rightarrow> d | None \<Rightarrow> 0)"

definition py_int :: "string \<Rightarrow> int" where
  "py_int s = foldl (\<lambda>n c. 10 * n + digit_value c) 0 s"

section \<open>Exceptions\<close>

text \<open>
  Every exception the modelled code can raise or let through. \<open>GithubRepoExists\<close> and
  \<open>UnrelatedGithubHistory\<close> carry the repository name they are built from and the
  exception they are chained from (\<^verbatim>\<open>raise ... from e\<close>); \<open>GithubException\<close> and
  \<open>GitCommandError\<close> carry their \<^verbatim>\<open>status\<close>.
\<close>

datatype exn =
    FileExistsError
  | FileNotFoundError
  | NotADirectoryError
  | IsADirectoryError
  | IndexError
  | KeyboardInterrupt
  | OtherError string
  | GithubException nat
  | GitCommandError nat
  | GithubRepoExists string exn
  | UnrelatedGithubHistory string exn

section \<open>The file system\<close>

text \<open>
  A path is the list of its components. \<^verbatim>\<open>os.path.join(p, f)\<close> appends a component;
  joining the empty string gives the path with a trailing slash, kept as an empty last
  component, which resolves only to a directory.
\<close>

type_synonym path = "string list"

datatype node = Dir | File string

type_synonym filesystem = "path \<Rightarrow> node option"

definition join :: "path \<Rightarrow> string \<Rightarrow> path" where
  "join p f = p @ [f]"

definition norm :: "path \<Rightarrow> path" where
  "norm p = rev (dropWhile (\<lambda>c. c = []) (rev p))"

definition stat :: "filesystem \<Rightarrow> path \<Rightarrow> node option" where
  "stat fs p =
     (if norm p = [] then Some Dir
      else if norm p \<noteq> p then (if fs (norm p) = Some Dir then Some Dir else None)
      else fs p)"

definition exists :: "filesystem \<Rightarrow> path \<Rightarrow> bool" where
  "exists fs p = (stat fs p \<noteq> None)"

definition isdir :: "filesystem \<Rightarrow> path \<Rightarrow> bool" where
  "isdir fs p = (stat fs p = Some Dir)"

text \<open>\<^verbatim>\<open>os.path.basename\<close>, and the root part of \<^verbatim>\<open>os.path.splitext\<close> (leading dots belong
  to the root).\<close>

definition basename :: "path \<Rightarrow> string" where
  "basename p = (if p = [] then [] else last p)"

definition splitext_root :: "string \<Rightarrow> string" where
  "splitext_root s =
     (let lead = takeWhile (\<lambda>c. c = CHR ''.'') s;
          stem = dropWhile (\<lambda>c. c = CHR ''.'') s
      in if CHR ''.'' \<in> set stem
         then lead @ rev (tl (dropWhile (\<lambda>c. c \<noteq> CHR ''.'') (rev stem)))
         else s)"

section \<open>The environment of a run\<close>

text \<open>
  What the program acts on: the file system, the lines printed so far, and the git
  repository of the project directory (its commit messages, newest first, its remotes as
  name and URL, and every git command run so far) and the working directory of the
  process. The git tool itself is a collaborator: \<open>git_fails\<close> says which exception, if
  any, a command raises, and \<open>object_name\<close> which name git gives to the n-th commit.
\<close>

record env =
  fs :: filesystem
  stdout :: "string list"
  git_commits :: "string list"
  git_remotes :: "(string \<times> string) list"
  git_calls :: "string list list"
  git_fails :: "string list \<Rightarrow> exn option"
  object_name :: "nat \<Rightarrow> string"
  cwd :: path

type_synonym 'a outcome = "(exn + 'a) \<times> env"

text \<open>Sequencing: an exception ends the computation, with the environment as it was left.\<close>

definition and_then :: "'a outcome \<Rightarrow> ('a \<Rightarrow> env \<Rightarrow> 'b outcome) \<Rightarrow> 'b outcome" where
  "and_then m f = (case m of (Inl x, e) \<Rightarrow> (Inl x, e) | (Inr v, e) \<Rightarrow> f v e)"

definition print :: "string \<Rightarrow> env \<Rightarrow> env" where
  "print line e = e\<lparr>stdout := stdout e @ [line]\<rparr>"

definition is_file :: "node option \<Rightarrow> bool" where
  "is_file n = (case n of Some (File t) \<Rightarrow> True | _ \<Rightarrow> False)"

text \<open>
  \<^verbatim>\<open>os.makedirs(p)\<close>: raises when \<open>p\<close> exists or when an ancestor is a file; otherwise
  \<open>p\<close> and every missing ancestor become directories.
\<close>

definition makedirs :: "path \<Rightarrow> env \<Rightarrow> unit outcome" where
  "makedirs p e =
     (let q = norm p in
      if exists (fs e) q then (Inl FileExistsError, e)
      else if \<exists>a \<in> set (prefixes q). is_file (fs e a) then (Inl NotADirectoryError, e)
      else (Inr (), e\<lparr>fs := (\<lambda>a. if a \<noteq> [] \<and> prefix a q then Some Dir else fs e a)\<rparr>))"

text \<open>\<^verbatim>\<open>with open(p, 'w') as f: f.write(text)\<close>.\<close>

definition open_write :: "path \<Rightarrow> string \<Rightarrow> env \<Rightarrow> unit outcome" where
  "open_write p text e =
     (if norm p \<noteq> p \<or> isdir (fs e) p then (Inl IsADirectoryError, e)
      else if \<not> isdir (fs e) (butlast p)
        then (Inl (if exists (fs e) (butlast p) then NotADirectoryError else FileNotFoundError), e)
      else (Inr (), e\<lparr>fs := (fs e)(p \<mapsto> File text)\<rparr>))"

text \<open>\<^verbatim>\<open>shutil.rmtree(p)\<close>: a directory goes with everything below it.\<close>

definition rmtree :: "path \<Rightarrow> env \<Rightarrow> unit outcome" where
  "rmtree p e =
     (let q = norm p in
      if \<not> exists (fs e) q then (Inl FileNotFoundError, e)
      else if \<not> isdir (fs e) q then (Inl NotADirectoryError, e)
      else (Inr (), e\<lparr>fs := (\<lambda>a. if prefix q a then None else fs e a)\<rparr>))"

text \<open>\<^verbatim>\<open>shutil.copy(src, dst)\<close>: into \<open>dst\<close> when it is a directory.\<close>

definition shutil_copy :: "path \<Rightarrow> path \<Rightarrow> env \<Rightarrow> unit outcome" where
  "shutil_copy src dst e =
     (case stat (fs e) src of
        None \<Rightarrow> (Inl FileNotFoundError, e)
      | Some Dir \<Rightarrow> (Inl IsADirectoryError, e)
      | Some (File text) \<Rightarrow>
          open_write (if isdir (fs e) dst then join dst (basename src) else dst) text e)"

text \<open>Python list indexing \<^verbatim>\<open>xs[i]\<close>: a negative index counts from the end.\<close>

definition py_index :: "'a list \<Rightarrow> int \<Rightarrow> exn + 'a" where
  "py_index xs i =
     (if 0 \<le> i \<and> i < int (length xs) then Inr (xs ! nat i)
      else if i < 0 \<and> - int (length xs) \<le> i then Inr (xs ! nat (int (length xs) + i))
      else Inl IndexError)"

text \<open>\<^verbatim>\<open>str(n)\<close> for a natural number.\<close>

fun str_nat :: "nat \<Rightarrow> string" where
  "str_nat n = (if n < 10 then [digits ! n] else str_nat (n div 10) @ [digits ! (n mod 10)])"

declare str_nat.simps [simp del]

section \<open>The git tool\<close>

text \<open>
  A git command is logged, and raises what \<open>git_fails\<close> says. \<^verbatim>\<open>Git(root).init()\<close> runs
  \<^verbatim>\<open>git init\<close> in the root when that is a directory and in the working directory of the
  process otherwise (GitPython drops a working directory it cannot enter); there it creates
  the \<^verbatim>\<open>.git\<close> directory, unless there is one, and returns what git printed; without a
  directory to run in, git ends with status 128. \<^verbatim>\<open>git commit\<close> adds a commit;
  \<^verbatim>\<open>git remote add\<close> adds a remote; \<^verbatim>\<open>git remote\<close> prints the remotes' names, one a
  line; \<^verbatim>\<open>git rev-parse HEAD\<close> without exceptions prints the object name of the last
  commit, and \<^verbatim>\<open>HEAD\<close> itself when there is none.
\<close>

definition git_run :: "string list \<Rightarrow> env \<Rightarrow> unit outcome" where
  "git_run argv e =
     (case git_fails e argv of
        Some x \<Rightarrow> (Inl x, e\<lparr>git_calls := git_calls e @ [argv]\<rparr>)
      | None \<Rightarrow> (Inr (), e\<lparr>git_calls := git_calls e @ [argv]\<rparr>))"

definition git_init :: "path \<Rightarrow> env \<Rightarrow> string option outcome" where
  "git_init root e =
     (let dir = (if isdir (fs e) root then root else cwd e) in
      and_then (git_run [''init''] e) (\<lambda>u e1.
        if \<not> isdir (fs e1) dir then (Inl (GitCommandError 128), e1)
        else if exists (fs e1) (join dir ''.git'')
          then (Inr (Some (''Reinitialized existing Git repository in /''
                  @ py_join ''/'' dir @ ''/.git/'')), e1)
        else (Inr (Some (''Initialized empty Git repository in /'' @ py_join ''/'' dir @ ''/.git/'')),
              e1\<lparr>fs := (fs e1)(join dir ''.git'' \<mapsto> Dir)\<rparr>)))"

definition git_rev_parse_HEAD :: "env \<Rightarrow> string" where
  "git_rev_parse_HEAD e =
     (if git_commits e = [] then ''HEAD'' else object_name e (length (git_commits e)))"

definition git_add :: "string \<Rightarrow> env \<Rightarrow> unit outcome" where
  "git_add what e = git_run [''add'', what] e"

definition git_commit :: "string \<Rightarrow> env \<Rightarrow> unit outcome" where
  "git_commit message e =
     and_then (git_run [''commit'', ''--message='' @ message] e) (\<lambda>u e1.
       (Inr (), e1\<lparr>git_commits := message # git_commits e1\<rparr>))"

definition git_remote :: "env \<Rightarrow> string" where
  "git_remote e = py_join NL (map fst (git_remotes e))"

definition git_remote_add :: "string \<Rightarrow> string \<Rightarrow> env \<Rightarrow> unit outcome" where
  "git_remote_add rname url e =
     and_then (git_run [''remote'', ''add'', rname, url] e) (\<lambda>u e1.
       (Inr (), e1\<lparr>git_remotes := git_remotes e1 @ [(rname, url)]\<rparr>))"

section \<open>The hosting API\<close>

text \<open>
  The authenticated user of the hosting API is a collaborator: \<open>create_repo\<close> and
  \<open>get_repo\<close> return a repository handle or raise.
\<close>

record repository =
  repo_name :: string
  html_url :: string

record github_user =
  create_repo :: "string \<Rightarrow> string \<Rightarrow> exn + repository"
  get_repo :: "string \<Rightarrow> exn + repository"

section \<open>CreateAction: the answers and the values derived from them\<close>

text \<open>
  A \<^verbatim>\<open>CreateAction\<close> object with the context it reads and the replies of its user. Each
  \<open>ans_\<close> field is what the prompt of that name returns (\<^verbatim>\<open>ask_input\<close>,
  \<^verbatim>\<open>ask_input_lines\<close> and \<^verbatim>\<open>ask_yes_no\<close> of \<^verbatim>\<open>msk.util\<close>); \<open>init_name\<close> is the
  constructor's \<^verbatim>\<open>name\<close> argument; \<open>lang\<close>, \<open>skills_dir\<close> and \<open>user\<close> come from the
  global context; \<open>to_camel\<close> and \<open>license_files\<close> stand for \<^verbatim>\<open>msk.util.to_camel\<close> and
  the result of \<^verbatim>\<open>msk.util.get_licenses()\<close>; \<open>set_order\<close> is the order in which Python
  iterates over a set of strings. The lazy attributes of the class are functions of this
  record: each is computed once and cached, so its value never changes during a run.
\<close>

record create_action =
  init_name :: "string option"
  ans_name :: string
  lang :: string
  skills_dir :: path
  ans_short_description :: string
  ans_author :: string
  ans_intent_lines :: "string list"
  ans_dialog_lines :: "string list"
  ans_long_description :: "string list"
  ans_icon :: string
  ans_color :: string
  ans_category_primary :: string
  ans_categories_other :: "string list"
  ans_tags :: "string list"
  ans_license :: string
  ans_link_repo :: bool
  ans_create_repo :: bool
  license_files :: "path list"
  to_camel :: "string \<Rightarrow> string"
  set_order :: "string set \<Rightarrow> string list"
  user :: github_user

text \<open>The name prompt accepts a reply that matches \<^verbatim>\<open>^[a-zA-Z \-]+$\<close>.\<close>

definition name_accepted :: "string \<Rightarrow> bool" where
  "name_accepted x = (x \<noteq> [] \<and> (\<forall>c \<in> set x. is_alpha c \<or> c = CHR '' '' \<or> c = CHR ''-''))"

definition name :: "create_action \<Rightarrow> string" where
  "name s =
     (case init_name s of
        Some n \<Rightarrow> if n \<noteq> [] then n
                  else replace (CHR '' '') (CHR ''-'') (lower (strip '' -'' (ans_name s)))
      | None \<Rightarrow> replace (CHR '' '') (CHR ''-'') (lower (strip '' -'' (ans_name s))))"

definition path :: "create_action \<Rightarrow> path" where
  "path s = join (skills_dir s) (name s @ ''-skill'')"

definition short_description :: "create_action \<Rightarrow> string" where
  "short_description s = capitalize (ans_short_description s)"

definition author :: "create_action \<Rightarrow> string" where
  "author s = ans_author s"

definition intent_lines :: "create_action \<Rightarrow> string list" where
  "intent_lines s = map capitalize (ans_intent_lines s)"

definition dialog_lines :: "create_action \<Rightarrow> string list" where
  "dialog_lines s = map capitalize (ans_dialog_lines s)"

text \<open>
  \<^verbatim>\<open>re.findall(r'(?<={)[a-z_A-Z]*(?=})', text)\<close>, scanning from the left. The flag says
  whether the character before the current position is an opening brace. A match needs
  the brace behind it and a closing brace right after the longest run of letters and
  underscores; after a match of some length the scan goes on behind it, after an empty
  match or none it goes on one character further.
\<close>

definition ident_char :: "char \<Rightarrow> bool" where
  "ident_char c = (c \<in> set lower_letters \<or> c = CHR ''_'' \<or> c \<in> set upper_letters)"

function findall_from :: "bool \<Rightarrow> string \<Rightarrow> string list" where
  "findall_from after_brace [] = []"
| "findall_from after_brace (c # cs) =
     (if after_brace \<and> take 1 (dropWhile ident_char (c # cs)) = ''}''
      then (if ident_char c
            then takeWhile ident_char (c # cs) # findall_from False (dropWhile ident_char cs)
            else [] # findall_from (c = CHR ''{'') cs)
      else findall_from (c = CHR ''{'') cs)"
  by pat_completeness auto
termination
  by (relation "measure (\<lambda>(b, s). length s)") (auto simp: length_dropWhile_le less_Suc_eq_le)

definition findall :: "string \<Rightarrow> string list" where
  "findall text = findall_from False text"

definition intent_entities :: "create_action \<Rightarrow> string set" where
  "intent_entities s = set (findall (py_join NL (intent_lines s)))"

definition dialog_entities :: "create_action \<Rightarrow> string set" where
  "dialog_entities s = set (findall (py_join NL (dialog_lines s)))"

text \<open>\<^verbatim>\<open>str.strip()\<close> removes ASCII white space.\<close>

definition whitespace :: string where
  "whitespace = [CHR '' '', CHR 0x09, CHR 0x0A, CHR 0x0B, CHR 0x0C, CHR 0x0D,
     CHR 0x1C, CHR 0x1D, CHR 0x1E, CHR 0x1F]"

definition long_description :: "create_action \<Rightarrow> string" where
  "long_description s = capitalize (strip whitespace (py_join (NL @ NL) (ans_long_description s)))"

definition icon :: "create_action \<Rightarrow> string" where
  "icon s = ans_icon s"

definition color :: "create_action \<Rightarrow> string" where
  "color s = ans_color s"

definition category_options :: "string list" where
  "category_options = [''Daily'', ''Configuration'', ''Entertainment'', ''Information'', ''IoT'',
     ''Music & Audio'', ''Media'', ''Productivity'', ''Transport'']"

definition category_primary :: "create_action \<Rightarrow> string" where
  "category_primary s = ans_category_primary s"

definition categories_other :: "create_action \<Rightarrow> string list" where
  "categories_other s = map capitalize (ans_categories_other s)"

definition tags :: "create_action \<Rightarrow> string list" where
  "tags s = map capitalize (ans_tags s)"

definition intent_name :: "create_action \<Rightarrow> string" where
  "intent_name s = py_join ''.'' (rev (py_split (CHR ''-'') (name s)))"

text \<open>
  The validator of the colour prompt, \<^verbatim>\<open>lambda x: "#" in x[0]\<close>: indexing the empty
  string raises.
\<close>

definition color_validator :: "string \<Rightarrow> exn + bool" where
  "color_validator x =
     (case py_index x 0 of Inl err \<Rightarrow> Inl err | Inr c \<Rightarrow> Inr (CHR ''#'' \<in> set [c]))"

definition category_validator :: "string \<Rightarrow> exn + bool" where
  "category_validator x = Inr (x \<in> set category_options)"

section \<open>The templates\<close>

text \<open>
  Each template is the function \<^verbatim>\<open>template.format(...)\<close> of its named fields. The first
  line of \<^verbatim>\<open>readme_template\<close> ends in a backslash, so the title follows on the same line.
\<close>

definition readme_template ::
  "string \<Rightarrow> string \<Rightarrow> string \<Rightarrow> string \<Rightarrow> string \<Rightarrow>
     (string \<Rightarrow> string \<Rightarrow> string \<Rightarrow> string \<Rightarrow> string \<Rightarrow> string)"
  where \<open>readme_template icon_f color_f title_name short_f long_f examples credits category_f
      categories_f tags_f =
    ''# <img src="https://raw.githack.com/FortAwesome/Font-Awesome/master/svgs/solid/'' @ icon_f
    @ ''.svg" card_color="'' @ color_f
    @ ''" width="50" height="50" style="vertical-align:bottom"/> '' @ title_name @ NL
    @ short_f @ NL
    @ NL
    @ ''## About'' @ NL
    @ long_f @ NL
    @ NL
    @ ''## Examples'' @ NL
    @ examples @ NL
    @ credits @ NL
    @ ''## Category'' @ NL
    @ ''**'' @ category_f @ ''**'' @ NL
    @ categories_f @ NL
    @ ''## Tags'' @ NL
    @ tags_f @ NL\<close>

definition credits_template :: "string \<Rightarrow> string" where
  "credits_template author_f = ''## Credits'' @ NL @ author_f @ NL"

definition init_template :: "string \<Rightarrow> string \<Rightarrow> string \<Rightarrow> string \<Rightarrow> string" where
  "init_template class_name intent_f handler_name handler_code_f =
    ''from mycroft import MycroftSkill, intent_file_handler'' @ NL
    @ NL
    @ NL
    @ ''class '' @ class_name @ ''(MycroftSkill):'' @ NL
    @ ''    def __init__(self):'' @ NL
    @ ''        MycroftSkill.__init__(self)'' @ NL
    @ NL
    @ ''    @intent_file_handler('' @ SQ @ intent_f @ ''.intent'' @ SQ @ '')'' @ NL
    @ ''    def handle_'' @ handler_name @ ''(self, message):'' @ NL
    @ handler_code_f @ NL
    @ NL
    @ NL
    @ ''def create_skill():'' @ NL
    @ ''    return '' @ class_name @ ''()'' @ NL
    @ NL"

definition gitignore_template :: string where
  "gitignore_template =
    ''__pycache__/'' @ NL
    @ ''*.qmlc'' @ NL
    @ ''settings.json'' @ NL
    @ NL"

definition settingsmeta_template :: string where
  \<open>settingsmeta_template =
    NL
    @ ''skillMetadata:'' @ NL
    @ ''  sections:'' @ NL
    @ ''    - name: Options << Name of section'' @ NL
    @ ''      fields:'' @ NL
    @ ''        - name: internal_python_variable_name'' @ NL
    @ ''          type: text'' @ NL
    @ ''          label: Setting Friendly Display Name'' @ NL
    @ ''          value: ""'' @ NL
    @ ''          placeholder: demo prompt in the input box'' @ NL
    @ ''    - name: Login << Name of another section'' @ NL
    @ ''      fields:'' @ NL
    @ ''        - type: label'' @ NL
    @ ''          label: Just a little bit of extra info for the user to understand following settings'' @ NL
    @ ''        - name: username'' @ NL
    @ ''          type: text'' @ NL
    @ ''          label: Username'' @ NL
    @ ''          value: ""'' @ NL
    @ ''        - name: password'' @ NL
    @ ''          type: password'' @ NL
    @ ''          label: Password'' @ NL
    @ ''          value: ""'' @ NL\<close>

definition pretty_license :: "path \<Rightarrow> string" where
  "pretty_license pth = replace (CHR ''-'') (CHR '' '') (splitext_root (basename pth))"

definition readme :: "create_action \<Rightarrow> string" where
  \<open>readme s =
     readme_template (icon s) (upper (color s))
       (title (replace (CHR ''-'') (CHR '' '') (name s)))
       (short_description s)
       (long_description s)
       (concat (map (\<lambda>i. ''* "'' @ i @ ''"'' @ NL) (intent_lines s)))
       (credits_template (author s))
       (category_primary s)
       (concat (map (\<lambda>i. i @ NL) (categories_other s)))
       (concat (map (\<lambda>i. ''#'' @ i @ NL) (tags s)))\<close>

text \<open>
  The list of lines that \<^verbatim>\<open>init_file\<close> joins into the handler's body, before the
  indentation: a binding from the message for every entity of the example phrases, an
  empty default for every entity of the response lines only, an empty line when there is
  any entity, and the call of \<^verbatim>\<open>speak_dialog\<close> split at its line breaks.
\<close>

definition speak_dialog_call :: "create_action \<Rightarrow> string" where
  "speak_dialog_call s =
     ''self.speak_dialog('' @ SQ @ intent_name s @ SQ
     @ (if dialog_entities s \<union> intent_entities s \<noteq> {}
        then '', data={'' @ NL
          @ py_join ('','' @ NL)
              (map (\<lambda>ent. ''    '' @ SQ @ ent @ SQ @ '': '' @ ent)
                 (set_order s (dialog_entities s \<union> intent_entities s)))
          @ NL @ ''}''
        else [])
     @ '')''"

definition handler_lines :: "create_action \<Rightarrow> string list" where
  "handler_lines s =
     map (\<lambda>ent. ent @ '' = message.data.get('' @ SQ @ ent @ SQ @ '')'')
       (sorted_list_of_set (intent_entities s))
     @ map (\<lambda>ent. ent @ '' = '' @ SQ @ SQ)
         (sorted_list_of_set (dialog_entities s - intent_entities s))
     @ (if dialog_entities s \<union> intent_entities s \<noteq> {} then [[]] else [])
     @ py_split (CHR 0x0A) (speak_dialog_call s)"

definition handler_code :: "create_action \<Rightarrow> string" where
  "handler_code s =
     py_join NL (map (\<lambda>i. (if i \<noteq> [] then replicate 8 (CHR '' '') else []) @ i) (handler_lines s))"

definition init_file :: "create_action \<Rightarrow> string" where
  "init_file s =
     init_template (to_camel s (replace (CHR ''-'') (CHR ''_'') (name s)))
       (intent_name s)
       (replace (CHR ''.'') (CHR ''_'') (intent_name s))
       (handler_code s)"

section \<open>The handlers of the template entries\<close>

text \<open>
  A handler acts on the environment and returns \<^verbatim>\<open>None\<close> or a string (\<open>Some text\<close>), or
  raises.
\<close>

type_synonym handler = "env \<Rightarrow> string option outcome"

definition add_vocab :: "create_action \<Rightarrow> handler" where
  "add_vocab s e =
     and_then (makedirs (join (join (path s) ''vocab'') (lang s)) e) (\<lambda>u e1.
     and_then (open_write (join (join (join (path s) ''vocab'') (lang s)) (intent_name s @ ''.intent''))
                 (py_join NL (intent_lines s @ [[]])) e1) (\<lambda>u e2.
     (Inr None, e2)))"

definition add_dialog :: "create_action \<Rightarrow> handler" where
  "add_dialog s e =
     and_then (makedirs (join (join (path s) ''dialog'') (lang s)) e) (\<lambda>u e1.
     and_then (open_write (join (join (join (path s) ''dialog'') (lang s)) (intent_name s @ ''.dialog''))
                 (py_join NL (dialog_lines s @ [[]])) e1) (\<lambda>u e2.
     (Inr None, e2)))"

definition license :: "create_action \<Rightarrow> handler" where
  "license s e =
     (let e1 = print (''For uploading a skill a license is required.'' @ NL
                 @ ''Choose one of the licenses listed below or add one later.'' @ NL) e;
          e2 = foldl (\<lambda>e' (num, pth). print (str_nat num @ '': '' @ pretty_license pth) e') e1
                 (zip [1 ..< 1 + length (license_files s)] (license_files s));
          choice = ans_license s
      in if isdigit choice
         then (case py_index (license_files s) (py_int choice - 1) of
                 Inl err \<Rightarrow> (Inl err, e2)
               | Inr src \<Rightarrow>
                   and_then (shutil_copy src (join (path s) ''LICENSE.md'') e2) (\<lambda>u e3.
                   (Inr None,
                    print (NL @ ''Some of these require that you insert the project name ''
                      @ ''and/or author'' @ SQ @ ''s name. Please check the license file and ''
                      @ ''add the appropriate information.'' @ NL) e3)))
         else (Inr None, e2))"

definition skill_template :: "create_action \<Rightarrow> (string \<times> handler) list" where
  "skill_template s =
     [([], \<lambda>e. and_then (makedirs (path s) e) (\<lambda>u e1. (Inr None, e1))),
      (''vocab'', add_vocab s),
      (''dialog'', add_dialog s),
      (''__init__.py'', \<lambda>e. (Inr (Some (init_file s)), e)),
      (''README.md'', \<lambda>e. (Inr (Some (readme s)), e)),
      (''LICENSE.md'', license s),
      (''.gitignore'', \<lambda>e. (Inr (Some gitignore_template), e)),
      (''settingsmeta.yaml'', \<lambda>e. (Inr (Some settingsmeta_template), e)),
      (''.git'', git_init (path s))]"

section \<open>The scaffold pipeline\<close>

text \<open>
  The loop of \<^verbatim>\<open>initialize_template\<close> over the template entries. \<open>files\<close> is \<open>None\<close> or a
  set of entry names; Python takes \<open>None\<close> and the empty set for false.
\<close>

definition truthy :: "string set option \<Rightarrow> bool" where
  "truthy files = (case files of None \<Rightarrow> False | Some F \<Rightarrow> F \<noteq> {})"

fun run_template :: "path \<Rightarrow> string set option \<Rightarrow> (string \<times> handler) list \<Rightarrow> env \<Rightarrow> unit outcome" where
  "run_template root files [] e = (Inr (), e)"
| "run_template root files ((file, handler) # rest) e =
     (if truthy files \<and> file \<notin> the files then run_template root files rest e
      else if \<not> exists (fs e) (join root file) then
        (case handler e of
           (Inl err, e1) \<Rightarrow> (Inl err, e1)
         | (Inr result, e1) \<Rightarrow>
             (case result of
                Some text \<Rightarrow>
                  if \<not> exists (fs e1) (join root file)
                  then (case open_write (join root file) text e1 of
                          (Inl err, e2) \<Rightarrow> (Inl err, e2)
                        | (Inr u, e2) \<Rightarrow> run_template root files rest e2)
                  else run_template root files rest e1
              | None \<Rightarrow> run_template root files rest e1))
      else run_template root files rest e)"

text \<open>
  The process: its environment, the callbacks registered with \<^verbatim>\<open>atexit\<close> in the order of
  their registration, and a counter that numbers the closures created so far (a function
  object equals itself only). The one callback of this program is the \<^verbatim>\<open>cleanup\<close> closure
  of \<^verbatim>\<open>initialize_template\<close>, which removes the tree at the path it captured.
\<close>

datatype callback = Cleanup nat path

record process =
  penv :: env
  exitfuncs :: "callback list"
  next_closure :: nat

definition atexit_register :: "callback \<Rightarrow> process \<Rightarrow> process" where
  "atexit_register cb pr = pr\<lparr>exitfuncs := exitfuncs pr @ [cb]\<rparr>"

definition atexit_unregister :: "callback \<Rightarrow> process \<Rightarrow> process" where
  "atexit_unregister cb pr = pr\<lparr>exitfuncs := filter (\<lambda>c. c \<noteq> cb) (exitfuncs pr)\<rparr>"

fun run_callback :: "callback \<Rightarrow> env \<Rightarrow> unit outcome" where
  "run_callback (Cleanup i p) e = rmtree p e"

text \<open>
  The end of the process, after a normal return or an exception that nothing caught: the
  callbacks run, last registered first, and what one raises is reported and dropped.
\<close>

fun run_exitfuncs :: "callback list \<Rightarrow> env \<Rightarrow> env" where
  "run_exitfuncs [] e = e"
| "run_exitfuncs (cb # cbs) e = run_exitfuncs cbs (snd (run_callback cb e))"

definition python_exit :: "process \<Rightarrow> env" where
  "python_exit pr = run_exitfuncs (rev (exitfuncs pr)) (penv pr)"

definition initialize_template ::
  "create_action \<Rightarrow> string set option \<Rightarrow> process \<Rightarrow> (exn + unit) \<times> process" where
  "initialize_template s files pr =
     (let cleanup = Cleanup (next_closure pr) (path s);
          pr1 = pr\<lparr>next_closure := Suc (next_closure pr)\<rparr>;
          pr2 = (if \<not> isdir (fs (penv pr1)) (path s) then atexit_register cleanup pr1 else pr1)
      in case run_template (path s) files (skill_template s) (penv pr2) of
           (Inl err, e) \<Rightarrow> (Inl err, pr2\<lparr>penv := e\<rparr>)
         | (Inr u, e) \<Rightarrow> (Inr (), atexit_unregister cleanup (pr2\<lparr>penv := e\<rparr>)))"

definition commit_changes :: "create_action \<Rightarrow> env \<Rightarrow> unit outcome" where
  "commit_changes s e =
     (if git_rev_parse_HEAD e = ''HEAD''
      then and_then (git_add ''.'' e) (\<lambda>u e1. git_commit ''Initial commit'' e1)
      else (Inr (), e))"

section \<open>The remote repository\<close>

text \<open>
  \<^verbatim>\<open>(get_repo_name and get_repo_name()) or (self.name + '-skill')\<close>: \<open>get_repo_name\<close> is
  \<open>None\<close>, or \<open>Some v\<close> for a callable that returns \<open>v\<close>; an empty \<open>v\<close> is false.
\<close>

definition chosen_repo_name :: "create_action \<Rightarrow> string option \<Rightarrow> string" where
  "chosen_repo_name s get_repo_name =
     (case get_repo_name of
        None \<Rightarrow> name s @ ''-skill''
      | Some v \<Rightarrow> if v \<noteq> [] then v else name s @ ''-skill'')"

definition git_remote_names :: "env \<Rightarrow> string list outcome" where
  "git_remote_names e =
     and_then (git_run [''remote''] e) (\<lambda>u e1. (Inr (py_split (CHR 0x0A) (git_remote e1)), e1))"

text \<open>\<^verbatim>\<open>subprocess.call(['git', ...])\<close> runs the command and returns its status; it does not raise.\<close>

definition subprocess_call_git :: "string list \<Rightarrow> env \<Rightarrow> env" where
  "subprocess_call_git argv e = e\<lparr>git_calls := git_calls e @ [argv]\<rparr>"

definition link_github_repo :: "create_action \<Rightarrow> string option \<Rightarrow> env \<Rightarrow> repository option outcome" where
  "link_github_repo s get_repo_name e =
     and_then (git_remote_names e) (\<lambda>remotes e0.
     if ''origin'' \<notin> set remotes then
       if ans_link_repo s then
         (case get_repo (user s) (chosen_repo_name s get_repo_name) of
            Inl err \<Rightarrow> (Inl err, e0)
          | Inr repo \<Rightarrow>
              and_then (git_remote_add ''origin'' (html_url repo) e0) (\<lambda>u e1.
              and_then (git_run [''fetch''] e1) (\<lambda>u e2.
              (case git_run [''pull'', ''origin'', ''master''] e2 of
                 (Inl err, e3) \<Rightarrow>
                   (case err of
                      GitCommandError status \<Rightarrow>
                        if status = 128
                        then (Inl (UnrelatedGithubHistory (chosen_repo_name s get_repo_name) err), e3)
                        else (Inl err, e3)
                    | _ \<Rightarrow> (Inl err, e3))
               | (Inr u, e3) \<Rightarrow>
                   and_then (git_run [''push'', ''--set-upstream'', ''origin'', ''master''] e3) (\<lambda>u e4.
                   (Inr (Some repo),
                    print (''Linked and pushed to GitHub repo: '' @ html_url repo) e4))))))
       else (Inr None, e0)
     else (Inr None, e0))"

definition create_github_repo :: "create_action \<Rightarrow> string option \<Rightarrow> env \<Rightarrow> repository option outcome" where
  "create_github_repo s get_repo_name e =
     and_then (git_remote_names e) (\<lambda>remotes e0.
     if ''origin'' \<notin> set remotes then
       if ans_create_repo s then
         (case create_repo (user s) (chosen_repo_name s get_repo_name) (short_description s) of
            Inl err \<Rightarrow>
              (case err of
                 GithubException status \<Rightarrow>
                   if status = 422
                   then (Inl (GithubRepoExists (chosen_repo_name s get_repo_name) err), e0)
                   else (Inl err, e0)
               | _ \<Rightarrow> (Inl err, e0))
          | Inr repo \<Rightarrow>
              and_then (git_remote_add ''origin'' (html_url repo) e0) (\<lambda>u e1.
              (Inr (Some repo),
               print (''Created GitHub repo: '' @ html_url repo)
                 (subprocess_call_git [''push'', ''-u'', ''origin'', ''master''] e1))))
       else (Inr None, e0)
     else (Inr None, e0))"

text \<open>
  Modelled from the spec: \<^verbatim>\<open>msk.util.print_error\<close>, the context manager that \<^verbatim>\<open>perform\<close>
  wraps around \<^verbatim>\<open>create_github_repo\<close>, is not in the sources. The spec says of the
  "repository already exists" condition that it is "caught at the top level and printed
  rather than crashing the process": an exception of the given class is caught and printed,
  any other one passes.
\<close>

definition is_GithubRepoExists :: "exn \<Rightarrow> bool" where
  "is_GithubRepoExists x = (case x of GithubRepoExists n cause \<Rightarrow> True | _ \<Rightarrow> False)"

definition exn_text :: "exn \<Rightarrow> string" where
  "exn_text x = (case x of GithubRepoExists n cause \<Rightarrow> ''GithubRepoExists: '' @ n | _ \<Rightarrow> ''Error'')"

definition print_error :: "(exn \<Rightarrow> bool) \<Rightarrow> 'a outcome \<Rightarrow> unit outcome" where
  "print_error caught m =
     (case m of
        (Inl x, e) \<Rightarrow> if caught x then (Inr (), print (exn_text x) e) else (Inl x, e)
      | (Inr v, e) \<Rightarrow> (Inr (), e))"

definition perform :: "create_action \<Rightarrow> process \<Rightarrow> (exn + unit) \<times> process" where
  "perform s pr =
     (case initialize_template s None pr of
        (Inl err, pr1) \<Rightarrow> (Inl err, pr1)
      | (Inr u, pr1) \<Rightarrow>
          (case commit_changes s (penv pr1) of
             (Inl err, e2) \<Rightarrow> (Inl err, pr1\<lparr>penv := e2\<rparr>)
           | (Inr u, e2) \<Rightarrow>
               (case print_error is_GithubRepoExists (create_github_repo s None e2) of
                  (Inl err, e3) \<Rightarrow> (Inl err, pr1\<lparr>penv := e3\<rparr>)
                | (Inr u, e3) \<Rightarrow>
                    (Inr (), pr1\<lparr>penv := print (''Created skill at: /'' @ py_join ''/'' (path s)) e3\<rparr>))))"

section \<open>A scenario\<close>

text \<open>
  The end-to-end scenario of the specification: name "siren alarm", one example phrase,
  one response line, icon "bell", colour "#FF0000", category "Daily"; no license is
  picked and no remote repository is wanted. One license file is on offer, and the
  process runs in the home directory of the user.
\<close>

definition no_user :: github_user where
  "no_user = \<lparr>create_repo = (\<lambda>n d. Inl (GithubException 401)),
              get_repo = (\<lambda>n. Inl (GithubException 404))\<rparr>"

definition scenario :: create_action where
  "scenario = \<lparr>
     init_name = None,
     ans_name = ''siren alarm'',
     lang = ''en-us'',
     skills_dir = [''opt'', ''mycroft'', ''skills''],
     ans_short_description = ''Wakes you up with a loud siren'',
     ans_author = ''Jane'',
     ans_intent_lines = [''set an alarm''],
     ans_dialog_lines = [''Your alarm is set''],
     ans_long_description = [''Wakes you up''],
     ans_icon = ''bell'',
     ans_color = ''#FF0000'',
     ans_category_primary = ''Daily'',
     ans_categories_other = [],
     ans_tags = [],
     ans_license = [],
     ans_link_repo = False,
     ans_create_repo = False,
     license_files = [[''opt'', ''msk'', ''licenses'', ''Apache-2.0.md'']],
     to_camel = (\<lambda>x. x),
     set_order = sorted_list_of_set,
     user = no_user\<rparr>"

definition quiet_git :: "string list \<Rightarrow> exn option" where
  "quiet_git argv = None"

definition start_fs :: filesystem where
  "start_fs = [[''opt''] \<mapsto> Dir,
               [''opt'', ''mycroft''] \<mapsto> Dir,
               [''opt'', ''mycroft'', ''skills''] \<mapsto> Dir,
               [''opt'', ''msk''] \<mapsto> Dir,
               [''opt'', ''msk'', ''licenses''] \<mapsto> Dir,
               [''opt'', ''msk'', ''licenses'', ''Apache-2.0.md''] \<mapsto> File ''Apache License'',
               [''home''] \<mapsto> Dir,
               [''home'', ''jane''] \<mapsto> Dir]"

definition start_env :: env where
  "start_env = \<lparr>fs = start_fs, stdout = [], git_commits = [], git_remotes = [], git_calls = [],
                 git_fails = quiet_git, object_name = (\<lambda>n. replicate 40 (CHR ''0'')),
                 cwd = [''home'', ''jane'']\<rparr>"

definition start :: process where
  "start = \<lparr>penv = start_env, exitfuncs = [], next_closure = 0\<rparr>"

definition file_lines :: "filesystem \<Rightarrow> path \<Rightarrow> string list" where
  "file_lines f p = (case f p of Some (File text) \<Rightarrow> py_split (CHR 0x0A) text | _ \<Rightarrow> [])"

section \<open>Invariants of the file system and of the process\<close>

text \<open>
  In a well-formed file system whatever exists lies in a directory. A file system grows
  into another when everything that exists is still there, unchanged. The closures
  registered with \<^verbatim>\<open>atexit\<close> are older than the next one to be created.
\<close>

definition wf_fs :: "filesystem \<Rightarrow> bool" where
  "wf_fs f = (\<forall>p. f p \<noteq> None \<longrightarrow> p \<noteq> [] \<and> isdir f (butlast p))"

definition grows :: "filesystem \<Rightarrow> filesystem \<Rightarrow> bool" where
  "grows f f' = (\<forall>p. f p \<noteq> None \<longrightarrow> f' p = f p)"

definition handler_ok :: "path \<Rightarrow> string \<Rightarrow> handler \<Rightarrow> bool" where
  "handler_ok root file h =
     (\<forall>e. wf_fs (fs e) \<and> \<not> exists (fs e) (join root file)
        \<longrightarrow> wf_fs (fs (snd (h e))) \<and> grows (fs e) (fs (snd (h e))))"

fun closure_id :: "callback \<Rightarrow> nat" where
  "closure_id (Cleanup i p) = i"

definition fresh_closures :: "process \<Rightarrow> bool" where
  "fresh_closures pr = (\<forall>c \<in> set (exitfuncs pr). closure_id c < next_closure pr)"

definition pizza_orderer :: create_action where
  "pizza_orderer = scenario\<lparr>ans_name := ''Pizza orderer''\<rparr>"

text \<open>
  Two more runs of the scenario: one in which the user asks for the second of the one
  license on offer, and the process as the run of the scenario leaves it.
\<close>

definition failing :: create_action where
  "failing = scenario\<lparr>ans_license := ''2''\<rparr>"

definition built :: process where
  "built = snd (initialize_template scenario None start)"

text \<open>
  More users and runs for the scenario: a user who enters 0 at the license prompt; a
  hosting account on which every repository name is taken; a user who wants a remote
  repository, on that account and on one that lets nobody in; a git whose pull ends with
  status 128, and one whose pull ends with status 1.
\<close>

definition picking_zero :: create_action where
  "picking_zero = scenario\<lparr>ans_license := ''0''\<rparr>"

definition taken_user :: github_user where
  "taken_user = \<lparr>create_repo = (\<lambda>n d. Inl (GithubException 422)),
                 get_repo = (\<lambda>n. Inr \<lparr>repo_name = n, html_url = ''https://github.com/jane/'' @ n\<rparr>)\<rparr>"

definition wanting_repo :: create_action where
  "wanting_repo = scenario\<lparr>ans_create_repo := True, ans_link_repo := True, user := taken_user\<rparr>"

definition unauthorized :: create_action where
  "unauthorized = scenario\<lparr>ans_create_repo := True\<rparr>"

definition diverged_git :: "string list \<Rightarrow> exn option" where
  "diverged_git argv =
     (if argv = [''pull'', ''origin'', ''master''] then Some (GitCommandError 128) else None)"

definition offline_git :: "string list \<Rightarrow> exn option" where
  "offline_git argv =
     (if argv = [''pull'', ''origin'', ''master''] then Some (GitCommandError 1) else None)"

text \<open>
  A user who wants to link the project to the repository of its name.
\<close>

definition linking :: create_action where
  "linking = scenario\<lparr>ans_link_repo := True, user := taken_user\<rparr>"

text \<open>
  For the entities: a string of letters and underscores only, a string between braces,
  what it means that the scan finds a string in a text (the flag says that an opening
  brace stands before the text), and a user whose response line names an entity that no
  example phrase names.
\<close>

definition idents :: "string \<Rightarrow> bool" where
  "idents x = (\<forall>c \<in> set x. ident_char c)"

definition braced :: "string \<Rightarrow> string" where
  "braced x = ''{'' @ x @ ''}''"

definition found :: "bool \<Rightarrow> string \<Rightarrow> string \<Rightarrow> bool" where
  "found b x s =
     (idents x \<and> ((b \<and> (\<exists>post. s = x @ CHR ''}'' # post))
        \<or> (\<exists>pre post. s = pre @ CHR ''{'' # x @ CHR ''}'' # post)))"

definition two_entities :: create_action where
  "two_entities = scenario\<lparr>ans_intent_lines := [''set {kind} alarm''],
                            ans_dialog_lines := [''Your {kind} alarm is {state}'']\<rparr>"

section \<open>The end of the process, the second run and the content\<close>

text \<open>
  How a process ends. When the interpreter exits, after a return or after an exception
  that nothing caught, the \<^verbatim>\<open>atexit\<close> callbacks run; a process that a signal kills, or
  that leaves through \<^verbatim>\<open>os._exit\<close>, runs none of them. \<open>interrupted\<close> is the process in the
  middle of \<^verbatim>\<open>initialize_template\<close>: the closure is created and registered as the code says,
  and the first \<open>k\<close> entries of the template have had their turn. \<open>retried\<close> is the process
  in which the call of the failing user has raised.
\<close>

datatype ending = Interpreter_exit | Killed

definition process_end :: "ending \<Rightarrow> process \<Rightarrow> env" where
  "process_end how pr = (case how of Interpreter_exit \<Rightarrow> python_exit pr | Killed \<Rightarrow> penv pr)"

definition interrupted :: "create_action \<Rightarrow> string set option \<Rightarrow> nat \<Rightarrow> process \<Rightarrow> process" where
  "interrupted s files k pr =
     (let cleanup = Cleanup (next_closure pr) (path s);
          pr1 = pr\<lparr>next_closure := Suc (next_closure pr)\<rparr>;
          pr2 = (if \<not> isdir (fs (penv pr1)) (path s) then atexit_register cleanup pr1 else pr1)
      in pr2\<lparr>penv := snd (run_template (path s) files (take k (skill_template s)) (penv pr2))\<rparr>)"

fun cleanup_path :: "callback \<Rightarrow> path" where
  "cleanup_path (Cleanup i p) = p"

definition retried :: process where
  "retried = snd (initialize_template failing None start)"




definition keeps :: "path \<Rightarrow> handler \<Rightarrow> bool" where
  "keeps p h = (\<forall>e. fs (snd (h e)) p = fs e p)"

text \<open>
  The files that \<^verbatim>\<open>add_vocab\<close> and \<^verbatim>\<open>add_dialog\<close> write, the category section of the
  README, and the environments in which the turn of the license comes in the run of the
  failing user, and that of the README in the run of the scenario, both with the empty
  set for \<open>files\<close>.
\<close>

definition vocab_file :: "create_action \<Rightarrow> path" where
  "vocab_file s = join (join (join (path s) ''vocab'') (lang s)) (intent_name s @ ''.intent'')"

definition dialog_file :: "create_action \<Rightarrow> path" where
  "dialog_file s = join (join (join (path s) ''dialog'') (lang s)) (intent_name s @ ''.dialog'')"

definition category_section :: "string \<Rightarrow> string" where
  "category_section c = ''## Category'' @ NL @ ''**'' @ c @ ''**'' @ NL"



section \<open>Splitting and joining\<close>

lemma py_split_not_Nil: "py_split sep s \<noteq> []"
  by (induction s) (auto split: list.splits)

lemma py_split_no_sep: "sep \<notin> set t \<Longrightarrow> py_split sep t = [t]"
  by (induction t) auto

lemma py_split_token: "sep \<notin> set t \<Longrightarrow> py_split sep (t @ sep # rest) = t # py_split sep rest"
  by (induction t) auto

lemma py_split_py_join:
  "ts \<noteq> [] \<Longrightarrow> \<forall>t \<in> set ts. sep \<notin> set t \<Longrightarrow> py_split sep (py_join [sep] ts) = ts"
proof (induction "[sep]" ts rule: py_join.induct)
  case 1
  then show ?case by simp
next
  case (2 x)
  then show ?case by (simp add: py_split_no_sep)
next
  case (3 x y ys)
  then show ?case by (simp add: py_split_token)
qed

section \<open>The intent identifier\<close>

lemma name_pizza_orderer: "name pizza_orderer = ''pizza-orderer''"
  by (simp add: pizza_orderer_def scenario_def name_def strip_def lower_def to_lower_def
      replace_def upper_letters_def lower_letters_def)

text \<open>
  C4. The intent identifier is a function of the name alone: the tokens of the name
  between its hyphens, reversed and joined with dots. So two objects with the same name
  have the same identifier, a name built from hyphen-free tokens gives these tokens in
  reverse order, and the name \<^verbatim>\<open>pizza-orderer\<close> gives \<^verbatim>\<open>orderer.pizza\<close>.
\<close>

theorem intent_name_reversed_tokens:
  "intent_name s = py_join ''.'' (rev (py_split (CHR ''-'') (name s)))
   \<and> (name s = name s' \<longrightarrow> intent_name s = intent_name s')
   \<and> (ts \<noteq> [] \<and> (\<forall>t \<in> set ts. CHR ''-'' \<notin> set t) \<and> name s = py_join ''-'' ts
        \<longrightarrow> intent_name s = py_join ''.'' (rev ts))
   \<and> (name s = ''pizza-orderer'' \<longrightarrow> intent_name s = ''orderer.pizza'')"
proof (intro conjI impI)
  show "intent_name s = py_join ''.'' (rev (py_split (CHR ''-'') (name s)))"
    by (simp add: intent_name_def)
  show "intent_name s = intent_name s'" if "name s = name s'"
    using that by (simp add: intent_name_def)
  show "intent_name s = py_join ''.'' (rev ts)"
    if "ts \<noteq> [] \<and> (\<forall>t \<in> set ts. CHR ''-'' \<notin> set t) \<and> name s = py_join ''-'' ts"
    using that py_split_py_join [of ts "CHR ''-''"] by (simp add: intent_name_def)
  show "intent_name s = ''orderer.pizza''" if "name s = ''pizza-orderer''"
    using that by (simp add: intent_name_def)
qed

theorem intent_name_reversed_tokens_witness:
  "name pizza_orderer = ''pizza-orderer''
   \<and> name pizza_orderer = py_join ''-'' [''pizza'', ''orderer'']
   \<and> intent_name pizza_orderer = ''orderer.pizza''
   \<and> intent_name pizza_orderer = py_join ''.'' (rev [''pizza'', ''orderer''])"
proof -
  have n: "name pizza_orderer = ''pizza-orderer''"
    by (rule name_pizza_orderer)
  have j: "name pizza_orderer = py_join ''-'' [''pizza'', ''orderer'']"
    by (simp add: n)
  have t: "[''pizza'', ''orderer''] \<noteq> [] \<and> (\<forall>t \<in> set [''pizza'', ''orderer'']. CHR ''-'' \<notin> set t)"
    by simp
  note inst = intent_name_reversed_tokens [of pizza_orderer pizza_orderer "[''pizza'', ''orderer'']"]
  from inst n have a: "intent_name pizza_orderer = ''orderer.pizza''"
    by blast
  from inst t j have b: "intent_name pizza_orderer = py_join ''.'' (rev [''pizza'', ''orderer''])"
    by blast
  from n j a b show ?thesis by blast
qed

section \<open>The file system, the handlers and the loop\<close>

lemma norm_idem: "norm (norm p) = norm p"
  unfolding norm_def by (simp add: dropWhile_idem)

lemma norm_snoc: "f \<noteq> [] \<Longrightarrow> norm (p @ [f]) = p @ [f]"
  by (simp add: norm_def)

lemma norm_join: "f \<noteq> [] \<Longrightarrow> norm (join p f) = join p f"
  by (simp add: norm_def join_def)


lemma norm_path: "norm (path s) = path s"
  by (simp add: path_def norm_join)

lemma path_not_Nil: "path s \<noteq> []"
  by (simp add: path_def join_def)

lemma isdir_iff: "isdir f p \<longleftrightarrow> norm p = [] \<or> f (norm p) = Some Dir"
  by (auto simp: isdir_def stat_def)

lemma exists_norm: "norm p = p \<Longrightarrow> exists f p \<longleftrightarrow> p = [] \<or> f p \<noteq> None"
  by (auto simp: exists_def stat_def)

lemma isdir_exists: "isdir f p \<Longrightarrow> exists f p"
  by (simp add: isdir_def exists_def)

lemma rmtree_shrinks: "fs (snd (rmtree p e)) q = Some n \<Longrightarrow> fs e q = Some n"
  by (auto simp: rmtree_def Let_def split: if_splits)

lemma rmtree_gone: "norm p \<noteq> [] \<Longrightarrow> \<not> isdir (fs (snd (rmtree p e))) p"
  by (auto simp: rmtree_def Let_def isdir_iff norm_idem exists_def stat_def split: if_splits)

lemma rmtree_below_gone:
  "isdir (fs e) p \<Longrightarrow> prefix (norm p) q \<Longrightarrow> fs (snd (rmtree p e)) q = None"
  by (auto simp: rmtree_def Let_def isdir_iff norm_idem exists_def stat_def split: if_splits)

lemma run_callback_shrinks:
  "fs e q = Some n" if "fs (snd (run_callback cb e)) q = Some n"
proof (cases cb)
  case (Cleanup i p)
  with that show ?thesis by (auto dest: rmtree_shrinks)
qed

lemma run_exitfuncs_shrinks: "fs (run_exitfuncs cbs e) q = Some n \<Longrightarrow> fs e q = Some n"
proof (induction cbs arbitrary: e)
  case Nil
  then show ?case by simp
next
  case (Cons cb cbs)
  then have "fs (snd (run_callback cb e)) q = Some n" by simp
  then show ?case by (rule run_callback_shrinks)
qed

lemma run_exitfuncs_None: "fs e q = None \<Longrightarrow> fs (run_exitfuncs cbs e) q = None"
  using run_exitfuncs_shrinks [of cbs e q] by (cases "fs (run_exitfuncs cbs e) q") auto

lemma run_exitfuncs_not_isdir:
  "\<not> isdir (fs e) p \<Longrightarrow> \<not> isdir (fs (run_exitfuncs cbs e)) p"
  using run_exitfuncs_shrinks [of cbs e "norm p" Dir] by (auto simp: isdir_iff)

lemma run_exitfuncs_Nil_env: "python_exit (pr\<lparr>exitfuncs := []\<rparr>) = penv pr"
  by (simp add: python_exit_def)


lemma prefix_norm: "prefix (norm p) p"
proof -
  have "suffix (dropWhile (\<lambda>c. c = []) (rev p)) (rev p)"
    by (rule suffix_dropWhile)
  then have "prefix (rev (dropWhile (\<lambda>c. c = []) (rev p))) (rev (rev p))"
    by (simp only: suffix_to_prefix)
  then show ?thesis by (simp add: norm_def)
qed

lemma grows_refl: "grows f f"
  by (simp add: grows_def)

lemma grows_trans: "grows f g \<Longrightarrow> grows g h \<Longrightarrow> grows f h"
  by (auto simp: grows_def)

lemma grows_isdir: "grows f g \<Longrightarrow> isdir f p \<Longrightarrow> isdir g p"
  by (auto simp: grows_def isdir_iff)


lemma wf_parent: "wf_fs f \<Longrightarrow> f p = Some n \<Longrightarrow> isdir f (butlast p)"
  by (simp add: wf_fs_def)

lemma makedirs_fs:
  "makedirs p e = (Inr u, e') \<Longrightarrow>
   fs e' = (\<lambda>a. if a \<noteq> [] \<and> prefix a (norm p) then Some Dir else fs e a)
   \<and> \<not> exists (fs e) (norm p) \<and> (\<forall>a. prefix a (norm p) \<longrightarrow> \<not> is_file (fs e a))"
  by (auto simp: makedirs_def Let_def in_set_prefixes split: if_splits)

lemma makedirs_fail: "makedirs p e = (Inl x, e') \<Longrightarrow> e' = e"
  by (auto simp: makedirs_def Let_def split: if_splits)

lemma not_is_file: "\<not> is_file (Some n) \<Longrightarrow> n = Dir"
  by (cases n) (auto simp: is_file_def)

lemma makedirs_grows: "grows (fs e) (fs (snd (makedirs p e)))"
proof (cases "makedirs p e")
  case (Pair r e')
  show ?thesis
  proof (cases r)
    case (Inl x)
    with Pair show ?thesis by (auto dest: makedirs_fail simp: grows_refl)
  next
    case (Inr u)
    with Pair have m: "makedirs p e = (Inr u, e')" by simp
    have "fs e' a = fs e a" if "fs e a = Some n" for a n
    proof (cases "a \<noteq> [] \<and> prefix a (norm p)")
      case True
      with makedirs_fs [OF m] have "\<not> is_file (fs e a)" by blast
      with that have "n = Dir" by (auto dest: not_is_file)
      with True that makedirs_fs [OF m] show ?thesis by simp
    next
      case False
      with makedirs_fs [OF m] show ?thesis by auto
    qed
    with Pair show ?thesis by (auto simp: grows_def)
  qed
qed

lemma makedirs_wf: "wf_fs (fs e) \<Longrightarrow> wf_fs (fs (snd (makedirs p e)))"
proof (cases "makedirs p e")
  case (Pair r e')
  assume wf: "wf_fs (fs e)"
  show ?thesis
  proof (cases r)
    case (Inl x)
    with Pair wf show ?thesis by (auto dest: makedirs_fail)
  next
    case (Inr u)
    with Pair have m: "makedirs p e = (Inr u, e')" by simp
    have g: "grows (fs e) (fs e')" using makedirs_grows [of e p] Pair by simp
    have f: "fs e' = (\<lambda>a. if a \<noteq> [] \<and> prefix a (norm p) then Some Dir else fs e a)"
      using makedirs_fs [OF m] by simp
    have "a \<noteq> [] \<and> isdir (fs e') (butlast a)" if a: "fs e' a = Some n" for a n
    proof (cases "a \<noteq> [] \<and> prefix a (norm p)")
      case True
      have "prefix (norm (butlast a)) (butlast a)" by (rule prefix_norm)
      moreover have "prefix (butlast a) a" by (rule prefixeq_butlast)
      ultimately have "prefix (norm (butlast a)) (norm p)"
        using True by (meson prefix_order.trans)
      then have "isdir (fs e') (butlast a)"
        by (simp add: isdir_iff f)
      with True show ?thesis by simp
    next
      case False
      with a f have "fs e a = Some n" by (auto split: if_splits)
      with wf have "a \<noteq> [] \<and> isdir (fs e) (butlast a)" by (simp add: wf_fs_def)
      with g show ?thesis by (auto dest: grows_isdir)
    qed
    then show ?thesis using Pair by (auto simp: wf_fs_def)
  qed
qed

lemma open_write_fs:
  "open_write p text e = (Inr u, e') \<Longrightarrow>
   e' = e\<lparr>fs := (fs e)(p \<mapsto> File text)\<rparr> \<and> norm p = p \<and> \<not> isdir (fs e) p \<and> isdir (fs e) (butlast p)"
  by (auto simp: open_write_def split: if_splits)

lemma open_write_fail: "open_write p text e = (Inl x, e') \<Longrightarrow> e' = e"
  by (auto simp: open_write_def split: if_splits)

lemma open_write_grows: "fs e p = None \<Longrightarrow> grows (fs e) (fs (snd (open_write p text e)))"
proof (cases "open_write p text e")
  case (Pair r e')
  assume n: "fs e p = None"
  show ?thesis
  proof (cases r)
    case (Inl x)
    with Pair show ?thesis by (auto dest: open_write_fail simp: grows_refl)
  next
    case (Inr u)
    with Pair have "e' = e\<lparr>fs := (fs e)(p \<mapsto> File text)\<rparr>" by (auto dest: open_write_fs)
    with n Pair show ?thesis by (auto simp: grows_def)
  qed
qed


lemma wf_update:
  assumes wf: "wf_fs f" and p: "p \<noteq> []" "norm p = p" and par: "isdir f (butlast p)"
    and nd: "f p \<noteq> Some Dir"
  shows "wf_fs (f(p \<mapsto> n))"
  unfolding wf_fs_def
proof (intro allI impI)
  fix a
  assume a: "(f(p \<mapsto> n)) a \<noteq> None"
  have ne: "a \<noteq> []" using a p wf by (cases "a = p") (auto simp: wf_fs_def)
  have "isdir f (butlast a)" using a par wf by (cases "a = p") (auto simp: wf_fs_def)
  then have "norm (butlast a) = [] \<or> f (norm (butlast a)) = Some Dir"
    by (simp add: isdir_iff)
  with nd have "norm (butlast a) = [] \<or> (f(p \<mapsto> n)) (norm (butlast a)) = Some Dir"
    by auto
  with ne show "a \<noteq> [] \<and> isdir (f(p \<mapsto> n)) (butlast a)" by (simp add: isdir_iff)
qed

lemma isdir_Nil: "isdir f []"
  by (simp add: isdir_iff norm_def)

lemma open_write_wf: "wf_fs (fs e) \<Longrightarrow> wf_fs (fs (snd (open_write p text e)))"
proof (cases "open_write p text e")
  case (Pair r e')
  assume wf: "wf_fs (fs e)"
  show ?thesis
  proof (cases r)
    case (Inl x)
    with Pair wf show ?thesis by (auto dest: open_write_fail)
  next
    case (Inr u)
    with Pair have o: "open_write p text e = (Inr u, e')" by simp
    note f = open_write_fs [OF o]
    from f have "p \<noteq> []" using isdir_Nil by auto
    moreover from f have "fs e p \<noteq> Some Dir" by (auto simp: isdir_iff)
    ultimately have "wf_fs ((fs e)(p \<mapsto> File text))"
      using wf f by (intro wf_update) auto
    with f Pair show ?thesis by simp
  qed
qed

lemma fs_print: "fs (print line e) = fs e"
  by (simp add: print_def)

lemma fs_foldl_print: "fs (foldl (\<lambda>e' (a, b). print (g a b) e') e xs) = fs e"
  by (induction xs arbitrary: e) (auto simp: fs_print)

lemma fs_git_run: "fs (snd (git_run argv e)) = fs e"
  by (simp add: git_run_def split: option.splits)

lemma and_then_Inr:
  "and_then m f = (Inr v, e') \<longleftrightarrow> (\<exists>u e1. m = (Inr u, e1) \<and> f u e1 = (Inr v, e'))"
  by (cases m) (auto simp: and_then_def split: sum.splits)

lemma and_then_cases:
  "and_then m f = (case fst m of Inl x \<Rightarrow> (Inl x, snd m) | Inr v \<Rightarrow> f v (snd m))"
  by (cases m) (auto simp: and_then_def split: sum.splits)

lemma stat_None_fs: "\<not> exists f p \<Longrightarrow> norm p = p \<Longrightarrow> f p = None"
  by (auto simp: exists_def stat_def split: if_splits)

lemma git_init_ok:
  assumes wf: "wf_fs (fs e)"
  shows "wf_fs (fs (snd (git_init root e))) \<and> grows (fs e) (fs (snd (git_init root e)))"
proof -
  define dir where "dir = (if isdir (fs e) root then root else cwd e)"
  show ?thesis
  proof (cases "git_fails e [''init''] = None \<and> isdir (fs e) dir
      \<and> \<not> exists (fs e) (join dir ''.git'')")
    case False
    then have "fs (snd (git_init root e)) = fs e"
      unfolding dir_def
      by (auto simp: git_init_def Let_def and_then_def git_run_def split: option.splits)
    with wf show ?thesis by (simp add: grows_refl)
  next
    case True
    have n: "norm (join dir ''.git'') = join dir ''.git''" by (simp add: norm_join)
    with True have none: "fs e (join dir ''.git'') = None" by (intro stat_None_fs) simp_all
    have f: "fs (snd (git_init root e)) = (fs e)(join dir ''.git'' \<mapsto> Dir)"
      using True unfolding dir_def
      by (auto simp: git_init_def Let_def and_then_def git_run_def)
    have "wf_fs ((fs e)(join dir ''.git'' \<mapsto> Dir))"
      using wf n none True by (intro wf_update) (auto simp: join_def)
    moreover have "grows (fs e) ((fs e)(join dir ''.git'' \<mapsto> Dir))"
      using none by (auto simp: grows_def)
    ultimately show ?thesis by (simp add: f)
  qed
qed

lemma shutil_copy_ok:
  assumes wf: "wf_fs (fs e)" and ne: "\<not> exists (fs e) dst" and n: "norm dst = dst"
  shows "wf_fs (fs (snd (shutil_copy src dst e))) \<and> grows (fs e) (fs (snd (shutil_copy src dst e)))"
proof -
  from ne have nd: "\<not> isdir (fs e) dst" by (auto dest: isdir_exists)
  from ne n have none: "fs e dst = None" by (rule stat_None_fs)
  show ?thesis
  proof (cases "stat (fs e) src")
    case None
    with wf show ?thesis by (simp add: shutil_copy_def grows_refl)
  next
    case (Some nd')
    show ?thesis
    proof (cases nd')
      case Dir
      with Some wf show ?thesis by (simp add: shutil_copy_def grows_refl)
    next
      case (File body)
      with Some nd have "shutil_copy src dst e = open_write dst body e"
        by (simp add: shutil_copy_def)
      with wf none show ?thesis by (simp add: open_write_wf open_write_grows)
    qed
  qed
qed


lemma exists_norm_self: "exists f (norm p) \<longleftrightarrow> norm p = [] \<or> f (norm p) \<noteq> None"
  by (auto simp: exists_def stat_def norm_idem)

lemma makedirs_child_absent:
  assumes wf: "wf_fs (fs e)" and m: "makedirs X e = (Inr u, e1)"
  shows "fs e1 (join X nm) = None"
proof -
  note f = makedirs_fs [OF m]
  have "\<not> prefix (join X nm) (norm X)"
  proof
    assume "prefix (join X nm) (norm X)"
    then have "length (join X nm) \<le> length (norm X)" by (rule prefix_length_le)
    moreover have "length (norm X) \<le> length X" using prefix_norm [of X] by (rule prefix_length_le)
    ultimately show False by (simp add: join_def)
  qed
  then have a: "fs e1 (join X nm) = fs e (join X nm)" using f by simp
  have "fs e (join X nm) = None"
  proof (rule ccontr)
    assume "fs e (join X nm) \<noteq> None"
    then obtain n where "fs e (join X nm) = Some n" by auto
    with wf have "isdir (fs e) (butlast (join X nm))" by (rule wf_parent)
    then have "isdir (fs e) X" by (simp add: join_def)
    then have "exists (fs e) (norm X)" by (auto simp: isdir_iff exists_norm_self)
    with f show False by simp
  qed
  with a show ?thesis by simp
qed

lemma makedirs_write_ok:
  assumes wf: "wf_fs (fs e)"
  shows "wf_fs (fs (snd (and_then (makedirs X e) (\<lambda>u e1.
            and_then (open_write (join X nm) body e1) (\<lambda>u e2. (Inr None, e2))))))
       \<and> grows (fs e) (fs (snd (and_then (makedirs X e) (\<lambda>u e1.
            and_then (open_write (join X nm) body e1) (\<lambda>u e2. (Inr None, e2))))))"
proof (cases "makedirs X e")
  case (Pair r e1)
  show ?thesis
  proof (cases r)
    case (Inl x)
    with Pair have "e1 = e" by (auto dest: makedirs_fail)
    with Pair Inl wf show ?thesis by (simp add: and_then_def grows_refl)
  next
    case (Inr u)
    with Pair have m: "makedirs X e = (Inr u, e1)" by simp
    have wf1: "wf_fs (fs e1)" using makedirs_wf [OF wf, of X] Pair by simp
    have g1: "grows (fs e) (fs e1)" using makedirs_grows [of e X] Pair by simp
    have none: "fs e1 (join X nm) = None" using wf m by (rule makedirs_child_absent)
    have s: "snd (and_then (makedirs X e) (\<lambda>u e1.
            and_then (open_write (join X nm) body e1) (\<lambda>u e2. (Inr None, e2))))
          = snd (open_write (join X nm) body e1)"
      using m by (simp add: and_then_cases split: sum.splits)
    have "wf_fs (fs (snd (open_write (join X nm) body e1)))" using wf1 by (rule open_write_wf)
    moreover have "grows (fs e) (fs (snd (open_write (join X nm) body e1)))"
      using g1 open_write_grows [OF none] by (rule grows_trans)
    ultimately show ?thesis by (simp only: s)
  qed
qed

lemma add_vocab_ok: "handler_ok root file (add_vocab s)"
  unfolding handler_ok_def add_vocab_def by (intro allI impI makedirs_write_ok) simp

lemma add_dialog_ok: "handler_ok root file (add_dialog s)"
  unfolding handler_ok_def add_dialog_def by (intro allI impI makedirs_write_ok) simp

lemma makedirs_handler_ok: "handler_ok root file (\<lambda>e. and_then (makedirs p e) (\<lambda>u e1. (Inr None, e1)))"
  unfolding handler_ok_def
proof (intro allI impI)
  fix e :: env
  assume a: "wf_fs (fs e) \<and> \<not> exists (fs e) (join root file)"
  have s: "snd (and_then (makedirs p e) (\<lambda>u e1. (Inr None, e1))) = snd (makedirs p e)"
    by (simp add: and_then_cases split: sum.splits)
  from a have "wf_fs (fs (snd (makedirs p e))) \<and> grows (fs e) (fs (snd (makedirs p e)))"
    by (simp add: makedirs_wf makedirs_grows)
  then show "wf_fs (fs (snd (and_then (makedirs p e) (\<lambda>u e1. (Inr None, e1)))))
      \<and> grows (fs e) (fs (snd (and_then (makedirs p e) (\<lambda>u e1. (Inr None, e1)))))"
    by (simp only: s)
qed

lemma const_handler_ok: "handler_ok root file (\<lambda>e. (Inr r, e))"
  by (simp add: handler_ok_def grows_refl)

lemma git_init_handler_ok: "handler_ok root ''.git'' (git_init root)"
  by (simp add: handler_ok_def git_init_ok)

lemma license_fs:
  "fs (snd (license s e)) = fs e
   \<or> (\<exists>src e2. fs e2 = fs e \<and> fs (snd (license s e)) = fs (snd (shutil_copy src (join (path s) ''LICENSE.md'') e2)))"
proof -
  define e2 where "e2 = foldl (\<lambda>e' (num, pth). print (str_nat num @ '': '' @ pretty_license pth) e')
      (print (''For uploading a skill a license is required.'' @ NL
                 @ ''Choose one of the licenses listed below or add one later.'' @ NL) e)
      (zip [1 ..< 1 + length (license_files s)] (license_files s))"
  have f2: "fs e2 = fs e"
    unfolding e2_def by (simp only: fs_foldl_print fs_print)
  show ?thesis
  proof (cases "isdigit (ans_license s)")
    case False
    then have "snd (license s e) = e2"
      by (simp add: license_def Let_def e2_def)
    with f2 show ?thesis by simp
  next
    case True
    show ?thesis
    proof (cases "py_index (license_files s) (py_int (ans_license s) - 1)")
      case (Inl x)
      with True have "snd (license s e) = e2"
        by (simp add: license_def Let_def e2_def)
      with f2 show ?thesis by simp
    next
      case (Inr src)
      with True have "fs (snd (license s e)) = fs (snd (shutil_copy src (join (path s) ''LICENSE.md'') e2))"
        by (simp add: license_def Let_def e2_def and_then_cases fs_print split: sum.splits)
      with f2 show ?thesis by blast
    qed
  qed
qed

lemma license_ok: "handler_ok (path s) ''LICENSE.md'' (license s)"
  unfolding handler_ok_def
proof (intro allI impI)
  fix e :: env
  assume a: "wf_fs (fs e) \<and> \<not> exists (fs e) (join (path s) ''LICENSE.md'')"
  from license_fs [of s e]
  show "wf_fs (fs (snd (license s e))) \<and> grows (fs e) (fs (snd (license s e)))"
  proof
    assume "fs (snd (license s e)) = fs e"
    with a show ?thesis by (simp add: grows_refl)
  next
    assume "\<exists>src e2. fs e2 = fs e \<and> fs (snd (license s e)) = fs (snd (shutil_copy src (join (path s) ''LICENSE.md'') e2))"
    then obtain src e2 where e2: "fs e2 = fs e"
      and l: "fs (snd (license s e)) = fs (snd (shutil_copy src (join (path s) ''LICENSE.md'') e2))"
      by blast
    have "wf_fs (fs e2)" "\<not> exists (fs e2) (join (path s) ''LICENSE.md'')"
      using a e2 by simp_all
    then have "wf_fs (fs (snd (shutil_copy src (join (path s) ''LICENSE.md'') e2)))
       \<and> grows (fs e2) (fs (snd (shutil_copy src (join (path s) ''LICENSE.md'') e2)))"
      by (rule shutil_copy_ok) (simp add: norm_join)
    with l e2 show ?thesis by simp
  qed
qed

lemma skill_template_ok: "\<forall>(file, h) \<in> set (skill_template s). handler_ok (path s) file h"
  by (simp add: skill_template_def add_vocab_ok add_dialog_ok makedirs_handler_ok
      const_handler_ok git_init_handler_ok license_ok)


lemma open_write_grows_absent:
  "\<not> exists (fs e) p \<Longrightarrow> grows (fs e) (fs (snd (open_write p body e)))"
proof (cases "norm p = p")
  case True
  assume "\<not> exists (fs e) p"
  then have "fs e p = None" using True by (rule stat_None_fs)
  then show ?thesis by (rule open_write_grows)
next
  case False
  then show ?thesis by (simp add: open_write_def grows_refl)
qed

lemma run_template_skip:
  "(truthy files \<and> file \<notin> the files) \<or> exists (fs e) (join root file) \<Longrightarrow>
   run_template root files ((file, h) # rest) e = run_template root files rest e"
  by auto

lemma run_template_raise:
  "\<not> ((truthy files \<and> file \<notin> the files) \<or> exists (fs e) (join root file)) \<Longrightarrow>
   h e = (Inl x, e1) \<Longrightarrow>
   run_template root files ((file, h) # rest) e = (Inl x, e1)"
  by auto

lemma run_template_done:
  "\<not> ((truthy files \<and> file \<notin> the files) \<or> exists (fs e) (join root file)) \<Longrightarrow>
   h e = (Inr res, e1) \<Longrightarrow> res = None \<or> exists (fs e1) (join root file) \<Longrightarrow>
   run_template root files ((file, h) # rest) e = run_template root files rest e1"
  by (auto split: option.splits)

lemma run_template_write:
  "\<not> ((truthy files \<and> file \<notin> the files) \<or> exists (fs e) (join root file)) \<Longrightarrow>
   h e = (Inr (Some body), e1) \<Longrightarrow> \<not> exists (fs e1) (join root file) \<Longrightarrow>
   run_template root files ((file, h) # rest) e =
     (case open_write (join root file) body e1 of
        (Inl x, e2) \<Rightarrow> (Inl x, e2)
      | (Inr u, e2) \<Rightarrow> run_template root files rest e2)"
  by auto

lemma run_template_ok:
  assumes "\<forall>(file, h) \<in> set tpl. handler_ok root file h" and "wf_fs (fs e)"
  shows "wf_fs (fs (snd (run_template root files tpl e)))
       \<and> grows (fs e) (fs (snd (run_template root files tpl e)))"
  using assms
proof (induction tpl arbitrary: e)
  case Nil
  then show ?case by (simp add: grows_refl)
next
  case (Cons a tpl)
  obtain fl h where a: "a = (fl, h)" by (cases a)
  have ok: "handler_ok root fl h" and oks: "\<forall>(fl, h) \<in> set tpl. handler_ok root fl h"
    using Cons.prems a by auto
  note IH = Cons.IH [OF oks]
  note wf = Cons.prems(2)
  show ?case
  proof (cases "(truthy files \<and> fl \<notin> the files) \<or> exists (fs e) (join root fl)")
    case True
    then have "run_template root files (a # tpl) e = run_template root files tpl e"
      unfolding a by (rule run_template_skip)
    with IH [OF wf] show ?thesis by simp
  next
    case False
    obtain r e1 where h: "h e = (r, e1)" by (cases "h e")
    have "wf_fs (fs (snd (h e))) \<and> grows (fs e) (fs (snd (h e)))"
      using ok False wf by (simp add: handler_ok_def)
    then have wf1: "wf_fs (fs e1)" and g1: "grows (fs e) (fs e1)" using h by simp_all
    show ?thesis
    proof (cases r)
      case (Inl x)
      with h have "run_template root files (a # tpl) e = (Inl x, e1)"
        unfolding a using False by (intro run_template_raise) auto
      with wf1 g1 show ?thesis by simp
    next
      case (Inr res)
      show ?thesis
      proof (cases "res = None \<or> exists (fs e1) (join root fl)")
        case True
        with h Inr have "run_template root files (a # tpl) e = run_template root files tpl e1"
          unfolding a using False by (intro run_template_done) auto
        with IH [OF wf1] g1 show ?thesis by (auto intro: grows_trans)
      next
        case nx: False
        then obtain body where res: "res = Some body" by auto
        obtain r2 e2 where w: "open_write (join root fl) body e1 = (r2, e2)"
          by (cases "open_write (join root fl) body e1")
        have wf2: "wf_fs (fs e2)" using open_write_wf [OF wf1, of "join root fl" body] w by simp
        have "grows (fs e1) (fs e2)"
          using open_write_grows_absent [of e1 "join root fl" body] nx w by simp
        with g1 have g2: "grows (fs e) (fs e2)" by (rule grows_trans)
        have rt: "run_template root files (a # tpl) e =
           (case open_write (join root fl) body e1 of
              (Inl x, e2) \<Rightarrow> (Inl x, e2)
            | (Inr u, e2) \<Rightarrow> run_template root files tpl e2)"
          unfolding a using False h Inr res nx by (intro run_template_write) auto
        show ?thesis
        proof (cases r2)
          case (Inl x)
          with rt w wf2 g2 show ?thesis by simp
        next
          case r2: (Inr u)
          with rt w have "run_template root files (a # tpl) e = run_template root files tpl e2"
            by simp
          with IH [OF wf2] g2 show ?thesis by (auto intro: grows_trans)
        qed
      qed
    qed
  qed
qed


lemma run_template_append:
  "run_template root files (xs @ ys) e =
     (case run_template root files xs e of
        (Inl x, e1) \<Rightarrow> (Inl x, e1)
      | (Inr u, e1) \<Rightarrow> run_template root files ys e1)"
  by (induction xs arbitrary: e) (auto split: prod.splits sum.splits option.splits)


lemma norm_Nil_iff: "norm ys = [] \<longleftrightarrow> (\<forall>y \<in> set ys. y = [])"
  by (auto simp: norm_def dropWhile_eq_Nil_conv)

lemma norm_append: "norm (p @ ys) = (if norm ys = [] then norm p else p @ norm ys)"
  by (auto simp: norm_def dropWhile_append dropWhile_eq_Nil_conv)

lemma length_norm: "length (norm ys) \<le> length ys"
  using prefix_norm [of ys] by (rule prefix_length_le)

lemma wf_ancestor_isdir:
  "wf_fs f \<Longrightarrow> f (p @ zs) = Some n \<Longrightarrow> zs \<noteq> [] \<Longrightarrow> isdir f p"
proof (induction "length zs" arbitrary: zs n rule: less_induct)
  case less
  from less.prems(3) obtain ys z where zs: "zs = ys @ [z]" by (cases zs rule: rev_cases) auto
  from less.prems(1,2) have "isdir f (butlast (p @ zs))" by (rule wf_parent)
  then have d: "isdir f (p @ ys)" by (simp add: zs butlast_append)
  show ?case
  proof (cases "norm ys = []")
    case True
    with d show ?thesis by (simp add: isdir_iff norm_append)
  next
    case False
    with d have "f (p @ norm ys) = Some Dir" by (simp add: isdir_iff norm_append)
    moreover have "length (norm ys) < length zs" using length_norm [of ys] by (simp add: zs)
    ultimately show ?thesis using less.hyps less.prems(1) False by blast
  qed
qed

lemma wf_below_absent:
  assumes "wf_fs f" and "\<not> isdir f p" and "strict_prefix p q"
  shows "f q = None"
proof (rule ccontr)
  assume "f q \<noteq> None"
  then obtain n where n: "f q = Some n" by auto
  from assms(3) obtain zs where "q = p @ zs" "zs \<noteq> []"
    by (auto simp: strict_prefix_def prefix_def)
  with assms(1) n have "isdir f p" by (auto intro: wf_ancestor_isdir)
  with assms(2) show False by simp
qed

lemma rmtree_not_isdir: "\<not> isdir (fs e) p \<Longrightarrow> snd (rmtree p e) = e"
  by (auto simp: rmtree_def Let_def isdir_iff exists_def stat_def norm_idem split: if_splits)

lemma cleanup_leaves_nothing:
  assumes wf: "wf_fs (fs e)" and sp: "strict_prefix (path s) q"
  shows "fs (snd (rmtree (path s) e)) q = None"
proof (cases "isdir (fs e) (path s)")
  case True
  from sp have "prefix (norm (path s)) q" by (simp add: norm_path strict_prefix_def)
  with True show ?thesis by (rule rmtree_below_gone)
next
  case False
  then have "snd (rmtree (path s) e) = e" by (rule rmtree_not_isdir)
  with wf False sp show ?thesis by (simp add: wf_below_absent)
qed

lemma python_exit_after_cleanup:
  "exitfuncs pr = cbs @ [Cleanup i p] \<Longrightarrow>
   python_exit pr = run_exitfuncs (rev cbs) (snd (rmtree p (penv pr)))"
  by (simp add: python_exit_def)

lemma initialize_template_raise:
  assumes "initialize_template s files pr = (Inl err, pr')"
  shows "exitfuncs pr' = (if isdir (fs (penv pr)) (path s) then exitfuncs pr
                          else exitfuncs pr @ [Cleanup (next_closure pr) (path s)])
       \<and> penv pr' = snd (run_template (path s) files (skill_template s) (penv pr))"
  using assms
  by (auto simp: initialize_template_def Let_def atexit_register_def split: prod.splits sum.splits if_splits)

lemma initialize_template_return:
  assumes "initialize_template s files pr = (Inr u, pr')"
  shows "exitfuncs pr' = filter (\<lambda>c. c \<noteq> Cleanup (next_closure pr) (path s)) (exitfuncs pr)
       \<and> penv pr' = snd (run_template (path s) files (skill_template s) (penv pr))
       \<and> next_closure pr' = Suc (next_closure pr)"
  using assms
  by (auto simp: initialize_template_def Let_def atexit_register_def atexit_unregister_def
      split: prod.splits sum.splits if_splits)

lemma fresh_filter:
  "fresh_closures pr \<Longrightarrow> filter (\<lambda>c. c \<noteq> Cleanup (next_closure pr) p) (exitfuncs pr) = exitfuncs pr"
  by (auto simp: fresh_closures_def filter_id_conv)

section \<open>What a run establishes\<close>


















lemma initialize_template_run:
  "initialize_template s files pr = (Inr u, pr') \<Longrightarrow>
   run_template (path s) files (skill_template s) (penv pr) = (Inr (), penv pr')"
  by (auto simp: initialize_template_def Let_def atexit_register_def atexit_unregister_def
      split: prod.splits sum.splits if_splits)





lemma wf_start: "wf_fs (fs (penv start))"
  by (auto simp: wf_fs_def start_def start_env_def start_fs_def isdir_iff norm_def split: if_splits)

lemma scenario_returns: "fst (initialize_template scenario None start) = Inr ()"
  by code_simp

lemma failing_raises: "fst (initialize_template failing None start) = Inl IndexError"
  by code_simp

lemma start_no_root: "\<not> isdir (fs (penv start)) (path failing)"
  by code_simp

lemma path_failing: "path failing = [''opt'', ''mycroft'', ''skills'', ''siren-alarm-skill'']"
  by code_simp

lemma path_scenario: "path scenario = [''opt'', ''mycroft'', ''skills'', ''siren-alarm-skill'']"
  by code_simp

lemma rmtree_frame: "\<not> prefix (norm p) q \<Longrightarrow> fs (snd (rmtree p e)) q = fs e q"
  by (auto simp: rmtree_def Let_def)

lemma run_exitfuncs_frame:
  "\<forall>c \<in> set cbs. \<not> prefix (norm (cleanup_path c)) q \<Longrightarrow> fs (run_exitfuncs cbs e) q = fs e q"
proof (induction cbs arbitrary: e)
  case Nil
  then show ?case by simp
next
  case (Cons cb cbs)
  obtain i p where cb: "cb = Cleanup i p" by (cases cb)
  from Cons.prems have "\<not> prefix (norm p) q" by (simp add: cb)
  then have "fs (snd (rmtree p e)) q = fs e q" by (rule rmtree_frame)
  moreover have "fs (run_exitfuncs cbs (snd (rmtree p e))) q = fs (snd (rmtree p e)) q"
    using Cons.prems by (intro Cons.IH) simp
  ultimately show ?case by (simp add: cb)
qed

section \<open>The restriction to a set of entries\<close>












section \<open>The rollback\<close>

lemma interrupted_registry:
  "exitfuncs (interrupted s files k pr) =
     (if isdir (fs (penv pr)) (path s) then exitfuncs pr
      else exitfuncs pr @ [Cleanup (next_closure pr) (path s)])
   \<and> penv (interrupted s files k pr)
       = snd (run_template (path s) files (take k (skill_template s)) (penv pr))"
  by (simp add: interrupted_def Let_def atexit_register_def)

lemma take_handler_ok:
  "\<forall>(file, h) \<in> set (take k (skill_template s)). handler_ok (path s) file h"
  using skill_template_ok [of s] by (auto dest: in_set_takeD)

lemma initialize_template_interrupted:
  "initialize_template s files pr = (Inl err, pr') \<Longrightarrow>
   pr' = interrupted s files (length (skill_template s)) pr"
  by (auto simp: initialize_template_def interrupted_def Let_def split: prod.splits sum.splits)

lemma built_root: "isdir (fs (penv built)) (path failing)"
  by code_simp

lemma failing_again_raises: "fst (initialize_template failing None built) = Inl IndexError"
  by code_simp

lemma cleanup_at_exit:
  assumes ex: "exitfuncs pr' = cbs @ [Cleanup i (path s)]"
  shows "\<not> isdir (fs (python_exit pr')) (path s)"
    and "wf_fs (fs (penv pr')) \<Longrightarrow> strict_prefix (path s) q \<Longrightarrow> fs (python_exit pr') q = None"
proof -
  have pe: "python_exit pr' = run_exitfuncs (rev cbs) (snd (rmtree (path s) (penv pr')))"
    using ex by (rule python_exit_after_cleanup)
  have "\<not> isdir (fs (snd (rmtree (path s) (penv pr')))) (path s)"
    by (rule rmtree_gone) (simp add: norm_path path_not_Nil)
  then show "\<not> isdir (fs (python_exit pr')) (path s)"
    unfolding pe by (rule run_exitfuncs_not_isdir)
  assume wf: "wf_fs (fs (penv pr'))" and sp: "strict_prefix (path s) q"
  then have "fs (snd (rmtree (path s) (penv pr'))) q = None"
    by (rule cleanup_leaves_nothing)
  then show "fs (python_exit pr') q = None"
    unfolding pe by (rule run_exitfuncs_None)
qed

text \<open>
  C1, amended. While the pipeline runs over a root that was no directory at its start, the
  cleanup of the call is the last callback registered; so a process that ends there with
  the interpreter running its exit callbacks (an exception that nothing catches,
  \<^verbatim>\<open>KeyboardInterrupt\<close> among them) leaves no directory at the root path and, the file
  system being well formed, nothing below it. A process that is killed there, so that no
  callback runs, keeps the file system as the pipeline left it. A run that returns has
  cancelled the cleanup of the call: nothing of this call is in the registry, which is
  what it was before when every closure in it is older than the call; whatever way the
  process ends then, a path stays as built unless a callback registered before the call
  removes a tree that holds it. A run over a root that was a directory registers nothing.
\<close>

theorem rollback_invariant:
  "(\<not> isdir (fs (penv pr)) (path s) \<longrightarrow>
      exitfuncs (interrupted s files k pr) = exitfuncs pr @ [Cleanup (next_closure pr) (path s)]
      \<and> \<not> isdir (fs (process_end Interpreter_exit (interrupted s files k pr))) (path s)
      \<and> (wf_fs (fs (penv pr)) \<longrightarrow>
           (\<forall>q. strict_prefix (path s) q \<longrightarrow>
              fs (process_end Interpreter_exit (interrupted s files k pr)) q = None))
      \<and> process_end Killed (interrupted s files k pr)
          = snd (run_template (path s) files (take k (skill_template s)) (penv pr)))
   \<and> (initialize_template s files pr = (Inl err, pr') \<longrightarrow>
      pr' = interrupted s files (length (skill_template s)) pr)
   \<and> (initialize_template s files pr = (Inl err, pr') \<and> \<not> isdir (fs (penv pr)) (path s) \<longrightarrow>
      exitfuncs pr' = exitfuncs pr @ [Cleanup (next_closure pr) (path s)]
      \<and> \<not> isdir (fs (python_exit pr')) (path s)
      \<and> (wf_fs (fs (penv pr)) \<longrightarrow>
           (\<forall>q. strict_prefix (path s) q \<longrightarrow> fs (python_exit pr') q = None)))
   \<and> (initialize_template s files pr = (Inr (), pr') \<longrightarrow>
      exitfuncs pr' = filter (\<lambda>c. c \<noteq> Cleanup (next_closure pr) (path s)) (exitfuncs pr)
      \<and> Cleanup (next_closure pr) (path s) \<notin> set (exitfuncs pr')
      \<and> (fresh_closures pr \<longrightarrow> exitfuncs pr' = exitfuncs pr)
      \<and> (exitfuncs pr = [] \<longrightarrow> python_exit pr' = penv pr')
      \<and> (\<forall>q. (\<forall>c \<in> set (exitfuncs pr). \<not> prefix (norm (cleanup_path c)) q) \<longrightarrow>
             fs (process_end how pr') q = fs (penv pr') q))
   \<and> (isdir (fs (penv pr)) (path s) \<longrightarrow>
      exitfuncs (interrupted s files k pr) = exitfuncs pr
      \<and> (initialize_template s files pr = (Inl err, pr') \<longrightarrow> exitfuncs pr' = exitfuncs pr))"
proof (intro conjI impI allI)
  assume nd: "\<not> isdir (fs (penv pr)) (path s)"
  let ?pi = "interrupted s files k pr"
  from nd show ex: "exitfuncs ?pi = exitfuncs pr @ [Cleanup (next_closure pr) (path s)]"
    by (simp add: interrupted_registry)
  have env: "penv ?pi = snd (run_template (path s) files (take k (skill_template s)) (penv pr))"
    by (simp add: interrupted_registry)
  show "\<not> isdir (fs (process_end Interpreter_exit ?pi)) (path s)"
    using cleanup_at_exit(1) [OF ex] by (simp add: process_end_def)
  show "process_end Killed ?pi
      = snd (run_template (path s) files (take k (skill_template s)) (penv pr))"
    by (simp add: process_end_def env)
  fix q
  assume wf: "wf_fs (fs (penv pr))" and sp: "strict_prefix (path s) q"
  have "wf_fs (fs (penv ?pi))"
    unfolding env using take_handler_ok wf by (intro run_template_ok [THEN conjunct1])
  then show "fs (process_end Interpreter_exit ?pi) q = None"
    using cleanup_at_exit(2) [OF ex _ sp] by (simp add: process_end_def)
next
  assume "initialize_template s files pr = (Inl err, pr')"
  then show "pr' = interrupted s files (length (skill_template s)) pr"
    by (rule initialize_template_interrupted)
next
  assume a: "initialize_template s files pr = (Inl err, pr') \<and> \<not> isdir (fs (penv pr)) (path s)"
  then have ex: "exitfuncs pr' = exitfuncs pr @ [Cleanup (next_closure pr) (path s)]"
    and env: "penv pr' = snd (run_template (path s) files (skill_template s) (penv pr))"
    using initialize_template_raise [of s files pr err pr'] by simp_all
  show "exitfuncs pr' = exitfuncs pr @ [Cleanup (next_closure pr) (path s)]" by (rule ex)
  show "\<not> isdir (fs (python_exit pr')) (path s)" using ex by (rule cleanup_at_exit(1))
  fix q
  assume wf: "wf_fs (fs (penv pr))" and sp: "strict_prefix (path s) q"
  have "wf_fs (fs (penv pr'))"
    unfolding env using skill_template_ok wf by (intro run_template_ok [THEN conjunct1])
  with ex show "fs (python_exit pr') q = None" using sp by (rule cleanup_at_exit(2))
next
  assume a: "initialize_template s files pr = (Inr (), pr')"
  note r = initialize_template_return [OF a]
  from r show f: "exitfuncs pr' = filter (\<lambda>c. c \<noteq> Cleanup (next_closure pr) (path s)) (exitfuncs pr)"
    by simp
  from f show "Cleanup (next_closure pr) (path s) \<notin> set (exitfuncs pr')" by simp
  show "exitfuncs pr' = exitfuncs pr" if "fresh_closures pr"
    using f that by (simp add: fresh_filter)
  show "python_exit pr' = penv pr'" if "exitfuncs pr = []"
    using f that by (simp add: python_exit_def)
  fix q
  assume none: "\<forall>c \<in> set (exitfuncs pr). \<not> prefix (norm (cleanup_path c)) q"
  with f have "\<forall>c \<in> set (rev (exitfuncs pr')). \<not> prefix (norm (cleanup_path c)) q" by simp
  then have "fs (run_exitfuncs (rev (exitfuncs pr')) (penv pr')) q = fs (penv pr') q"
    by (rule run_exitfuncs_frame)
  then show "fs (process_end how pr') q = fs (penv pr') q"
    by (cases how) (simp_all add: process_end_def python_exit_def)
next
  assume "isdir (fs (penv pr)) (path s)"
  then show "exitfuncs (interrupted s files k pr) = exitfuncs pr"
    by (simp add: interrupted_registry)
next
  assume "isdir (fs (penv pr)) (path s)" and "initialize_template s files pr = (Inl err, pr')"
  then show "exitfuncs pr' = exitfuncs pr"
    using initialize_template_raise [of s files pr err pr'] by simp
qed

theorem rollback_invariant_witness:
  "\<not> isdir (fs (penv start)) (path failing)
   \<and> exitfuncs (interrupted failing None 3 start) = [Cleanup 0 (path failing)]
   \<and> \<not> isdir (fs (process_end Interpreter_exit (interrupted failing None 3 start))) (path failing)
   \<and> fs (process_end Interpreter_exit (interrupted failing None 3 start)) (path failing @ [''vocab''])
       = None
   \<and> process_end Killed (interrupted failing None 3 start)
       = snd (run_template (path failing) None (take 3 (skill_template failing)) (penv start))
   \<and> fst (initialize_template failing None start) = Inl IndexError
   \<and> snd (initialize_template failing None start)
       = interrupted failing None (length (skill_template failing)) start
   \<and> exitfuncs (snd (initialize_template failing None start)) = [Cleanup 0 (path failing)]
   \<and> \<not> isdir (fs (python_exit (snd (initialize_template failing None start)))) (path failing)
   \<and> fs (python_exit (snd (initialize_template failing None start))) (path failing @ [''vocab'']) = None
   \<and> fst (initialize_template scenario None start) = Inr ()
   \<and> exitfuncs (snd (initialize_template scenario None start)) = []
   \<and> python_exit (snd (initialize_template scenario None start))
       = penv (snd (initialize_template scenario None start))
   \<and> fs (process_end Interpreter_exit (snd (initialize_template scenario None start)))
         (path scenario @ [''README.md''])
       = fs (penv (snd (initialize_template scenario None start))) (path scenario @ [''README.md''])
   \<and> fst (initialize_template failing None built) = Inl IndexError
   \<and> isdir (fs (penv built)) (path failing)
   \<and> exitfuncs (interrupted failing None 3 built) = exitfuncs built
   \<and> exitfuncs (snd (initialize_template failing None built)) = exitfuncs built"
proof -
  have r1: "initialize_template failing None start
      = (Inl IndexError, snd (initialize_template failing None start))"
    using failing_raises by (simp add: prod_eq_iff)
  have r2: "initialize_template scenario None start
      = (Inr (), snd (initialize_template scenario None start))"
    using scenario_returns by (simp add: prod_eq_iff)
  have r3: "initialize_template failing None built
      = (Inl IndexError, snd (initialize_template failing None built))"
    using failing_again_raises by (simp add: prod_eq_iff)
  have sp: "strict_prefix (path failing) (path failing @ [''vocab''])"
    by (auto simp: strict_prefix_def)
  have e0: "exitfuncs start = []" "next_closure start = 0" by (simp_all add: start_def)
  have nb: "\<forall>c \<in> set (exitfuncs start).
      \<not> prefix (norm (cleanup_path c)) (path scenario @ [''README.md''])"
    by (simp add: e0)
  note a = rollback_invariant [of start failing None 3 IndexError
      "snd (initialize_template failing None start)" Interpreter_exit]
  note b = rollback_invariant [of start scenario None 3 IndexError
      "snd (initialize_template scenario None start)" Interpreter_exit]
  note c = rollback_invariant [of built failing None 3 IndexError
      "snd (initialize_template failing None built)" Interpreter_exit]
  from a start_no_root wf_start sp e0
  have "exitfuncs (interrupted failing None 3 start) = [Cleanup 0 (path failing)]"
    and "\<not> isdir (fs (process_end Interpreter_exit (interrupted failing None 3 start))) (path failing)"
    and "fs (process_end Interpreter_exit (interrupted failing None 3 start)) (path failing @ [''vocab''])
       = None"
    and "process_end Killed (interrupted failing None 3 start)
       = snd (run_template (path failing) None (take 3 (skill_template failing)) (penv start))"
    by auto
  moreover from a r1
  have "snd (initialize_template failing None start)
       = interrupted failing None (length (skill_template failing)) start"
    by blast
  moreover from a r1 start_no_root wf_start sp e0
  have "exitfuncs (snd (initialize_template failing None start)) = [Cleanup 0 (path failing)]"
    and "\<not> isdir (fs (python_exit (snd (initialize_template failing None start)))) (path failing)"
    and "fs (python_exit (snd (initialize_template failing None start))) (path failing @ [''vocab'']) = None"
    by auto
  moreover from b r2 e0
  have "exitfuncs (snd (initialize_template scenario None start)) = []"
    and "python_exit (snd (initialize_template scenario None start))
       = penv (snd (initialize_template scenario None start))"
    by auto
  moreover from b r2 nb
  have "fs (process_end Interpreter_exit (snd (initialize_template scenario None start)))
         (path scenario @ [''README.md''])
       = fs (penv (snd (initialize_template scenario None start))) (path scenario @ [''README.md''])"
    by blast
  moreover from c built_root
  have "exitfuncs (interrupted failing None 3 built) = exitfuncs built"
    by blast
  moreover from c r3 built_root
  have "exitfuncs (snd (initialize_template failing None built)) = exitfuncs built"
    by blast
  ultimately show ?thesis
    using failing_raises start_no_root scenario_returns failing_again_raises built_root
    by blast
qed

text \<open>
  C1 as stated fails twice. A process killed while the pipeline runs (here after the
  third entry of a first-time scaffold) runs no exit callback: the root directory and the
  vocabulary file stay, where the same process ending through the interpreter leaves
  nothing. And a run that completes in a process in which an earlier call has failed
  (its cleanup is still registered, for the same root) loses the directory it completed
  when the process ends.
\<close>

theorem rollback_invariant_counterexample:
  "\<not> isdir (fs (penv start)) (path scenario)
   \<and> isdir (fs (process_end Killed (interrupted scenario None 3 start))) (path scenario)
   \<and> file_lines (fs (process_end Killed (interrupted scenario None 3 start)))
        (path scenario @ [''vocab'', ''en-us'', ''alarm.siren.intent'']) = [''Set an alarm'', [] ]
   \<and> \<not> isdir (fs (process_end Interpreter_exit (interrupted scenario None 3 start))) (path scenario)
   \<and> fst (initialize_template failing None start) = Inl IndexError
   \<and> exitfuncs retried = [Cleanup 0 (path scenario)]
   \<and> fst (initialize_template scenario None retried) = Inr ()
   \<and> isdir (fs (penv (snd (initialize_template scenario None retried)))) (path scenario)
   \<and> exitfuncs (snd (initialize_template scenario None retried)) = [Cleanup 0 (path scenario)]
   \<and> \<not> isdir (fs (process_end Interpreter_exit (snd (initialize_template scenario None retried))))
         (path scenario)"
  by code_simp

section \<open>The second run\<close>









section \<open>The content of the project\<close>

lemma makedirs_other: "\<not> prefix a (norm q) \<Longrightarrow> fs (snd (makedirs q e)) a = fs e a"
  by (auto simp: makedirs_def Let_def)

lemma open_write_other: "a \<noteq> p \<Longrightarrow> fs (snd (open_write p body e)) a = fs e a"
  by (auto simp: open_write_def)

lemma keeps_const: "keeps p (\<lambda>e. (Inr r, e))"
  by (simp add: keeps_def)

lemma keeps_makedirs:
  "\<not> prefix p (norm q) \<Longrightarrow> keeps p (\<lambda>e. and_then (makedirs q e) (\<lambda>u e1. (Inr None, e1)))"
  unfolding keeps_def
proof
  fix e :: env
  assume n: "\<not> prefix p (norm q)"
  have s: "snd (and_then (makedirs q e) (\<lambda>u e1. (Inr None, e1))) = snd (makedirs q e)"
    by (simp add: and_then_cases split: sum.splits)
  show "fs (snd (and_then (makedirs q e) (\<lambda>u e1. (Inr None, e1)))) p = fs e p"
    unfolding s using n by (rule makedirs_other)
qed

lemma keeps_makedirs_write:
  assumes "\<not> prefix p (norm q)" and "p \<noteq> w"
  shows "keeps p (\<lambda>e. and_then (makedirs q e) (\<lambda>u e1.
            and_then (open_write w body e1) (\<lambda>u e2. (Inr None, e2))))"
  unfolding keeps_def
proof
  fix e :: env
  obtain r1 e1 where m: "makedirs q e = (r1, e1)" by (cases "makedirs q e")
  have f1: "fs e1 p = fs e p" using makedirs_other [OF assms(1), of e] m by simp
  obtain r2 e2 where w: "open_write w body e1 = (r2, e2)" by (cases "open_write w body e1")
  have f2: "fs e2 p = fs e1 p" using open_write_other [OF assms(2), of body e1] w by simp
  show "fs (snd (and_then (makedirs q e) (\<lambda>u e1.
            and_then (open_write w body e1) (\<lambda>u e2. (Inr None, e2))))) p = fs e p"
    using m w f1 f2 by (cases r1; cases r2) (simp_all add: and_then_def)
qed

lemma run_template_keeps:
  assumes "\<forall>(f, g) \<in> set tpl. keeps p g \<and> join root f \<noteq> p"
  shows "fs (snd (run_template root files tpl e)) p = fs e p"
  using assms
proof (induction tpl arbitrary: e)
  case Nil
  then show ?case by simp
next
  case (Cons a tpl)
  obtain fl h where a: "a = (fl, h)" by (cases a)
  have k: "keeps p h" and d: "join root fl \<noteq> p"
    and ks: "\<forall>(f, g) \<in> set tpl. keeps p g \<and> join root f \<noteq> p"
    using Cons.prems a by auto
  note IH = Cons.IH [OF ks]
  show ?case
  proof (cases "(truthy files \<and> fl \<notin> the files) \<or> exists (fs e) (join root fl)")
    case True
    then have "run_template root files (a # tpl) e = run_template root files tpl e"
      unfolding a by (rule run_template_skip)
    with IH show ?thesis by simp
  next
    case False
    obtain r e1 where h: "h e = (r, e1)" by (cases "h e")
    have f1: "fs e1 p = fs e p" using k h by (auto simp: keeps_def dest: spec [of _ e])
    show ?thesis
    proof (cases r)
      case (Inl x)
      with h have "run_template root files (a # tpl) e = (Inl x, e1)"
        unfolding a using False by (intro run_template_raise) auto
      with f1 show ?thesis by simp
    next
      case (Inr res)
      show ?thesis
      proof (cases "res = None \<or> exists (fs e1) (join root fl)")
        case True
        with h Inr have "run_template root files (a # tpl) e = run_template root files tpl e1"
          unfolding a using False by (intro run_template_done) auto
        with IH [of e1] f1 show ?thesis by simp
      next
        case nx: False
        then obtain body where res: "res = Some body" by auto
        obtain r2 e2 where w: "open_write (join root fl) body e1 = (r2, e2)"
          by (cases "open_write (join root fl) body e1")
        have f2: "fs e2 p = fs e1 p"
          using open_write_other [of p "join root fl" body e1] d w by simp
        have rt: "run_template root files (a # tpl) e =
           (case open_write (join root fl) body e1 of
              (Inl x, e2) \<Rightarrow> (Inl x, e2)
            | (Inr u, e2) \<Rightarrow> run_template root files tpl e2)"
          unfolding a using False h Inr res nx by (intro run_template_write) auto
        show ?thesis
        proof (cases r2)
          case (Inl x)
          with rt w f1 f2 show ?thesis by simp
        next
          case r2: (Inr u)
          with rt w have "run_template root files (a # tpl) e = run_template root files tpl e2"
            by simp
          with IH [of e2] f1 f2 show ?thesis by simp
        qed
      qed
    qed
  qed
qed

lemma entry_turn:
  assumes run: "run_template root files (pre @ (fl, h) # rest) e = (Inr (), e')"
    and nt: "\<not> truthy files"
    and ok: "\<forall>(f, g) \<in> set (pre @ (fl, h) # rest). handler_ok root f g"
    and wf: "wf_fs (fs e)"
    and kp: "\<forall>(f, g) \<in> set pre. keeps (join root fl) g \<and> f \<noteq> fl"
    and ab: "fs e (join root fl) = None" and ne: "fl \<noteq> []"
  shows "\<exists>e0 res e1. fs e0 (join root fl) = None \<and> h e0 = (Inr res, e1) \<and> grows (fs e1) (fs e')
          \<and> (\<forall>body. res = Some body \<and> fs e1 (join root fl) = None
                \<longrightarrow> fs e' (join root fl) = Some (File body))"
proof -
  let ?p = "join root fl"
  have n: "norm ?p = ?p" using ne by (rule norm_join)
  have ex: "exists f ?p \<longleftrightarrow> f ?p \<noteq> None" for f
    using n by (simp add: exists_norm join_def)
  obtain r0 e0 where p: "run_template root files pre e = (r0, e0)"
    by (cases "run_template root files pre e")
  from run p have run2: "run_template root files ((fl, h) # rest) e0 = (Inr (), e')"
    by (cases r0) (simp_all add: run_template_append)
  have okp: "\<forall>(f, g) \<in> set pre. handler_ok root f g"
    and okh: "handler_ok root fl h"
    and okr: "\<forall>(f, g) \<in> set rest. handler_ok root f g"
    using ok by auto
  have wf0: "wf_fs (fs e0)" using run_template_ok [OF okp wf, of files] p by simp
  have "\<forall>(f, g) \<in> set pre. keeps ?p g \<and> join root f \<noteq> ?p"
    using kp by (auto simp: join_def)
  then have "fs (snd (run_template root files pre e)) ?p = fs e ?p" by (rule run_template_keeps)
  with p ab have ab0: "fs e0 ?p = None" by simp
  then have nex: "\<not> ((truthy files \<and> fl \<notin> the files) \<or> exists (fs e0) ?p)"
    using nt by (simp add: ex)
  obtain r e1 where h: "h e0 = (r, e1)" by (cases "h e0")
  have "wf_fs (fs (snd (h e0))) \<and> grows (fs e0) (fs (snd (h e0)))"
    using okh nex wf0 by (simp add: handler_ok_def)
  then have wf1: "wf_fs (fs e1)" using h by simp
  show ?thesis
  proof (cases r)
    case (Inl x)
    with h have "run_template root files ((fl, h) # rest) e0 = (Inl x, e1)"
      using nex by (intro run_template_raise) auto
    with run2 show ?thesis by simp
  next
    case (Inr res)
    show ?thesis
    proof (cases "res = None \<or> exists (fs e1) ?p")
      case True
      with h Inr have "run_template root files ((fl, h) # rest) e0 = run_template root files rest e1"
        using nex by (intro run_template_done) auto
      with run2 have rr: "run_template root files rest e1 = (Inr (), e')" by simp
      have g: "grows (fs e1) (fs e')" using run_template_ok [OF okr wf1, of files] rr by simp
      from True have "\<forall>body. res = Some body \<and> fs e1 ?p = None \<longrightarrow> fs e' ?p = Some (File body)"
        by (auto simp: ex)
      with h Inr g ab0 show ?thesis by blast
    next
      case nx: False
      then obtain body where res: "res = Some body" by auto
      obtain r2 e2 where w: "open_write ?p body e1 = (r2, e2)"
        by (cases "open_write ?p body e1")
      have wf2: "wf_fs (fs e2)" using open_write_wf [OF wf1, of ?p body] w by simp
      have g12: "grows (fs e1) (fs e2)"
        using open_write_grows_absent [of e1 ?p body] nx w by simp
      have rt: "run_template root files ((fl, h) # rest) e0 =
           (case open_write ?p body e1 of
              (Inl x, e2) \<Rightarrow> (Inl x, e2)
            | (Inr u, e2) \<Rightarrow> run_template root files rest e2)"
        using nex h Inr res nx by (intro run_template_write) auto
      show ?thesis
      proof (cases r2)
        case (Inl x)
        with rt w run2 show ?thesis by simp
      next
        case r2: (Inr u)
        with rt w run2 have rr: "run_template root files rest e2 = (Inr (), e')" by simp
        have g2: "grows (fs e2) (fs e')" using run_template_ok [OF okr wf2, of files] rr by simp
        from w r2 have "fs e2 ?p = Some (File body)"
          using open_write_fs [of ?p body e1 u e2] by simp
        with g2 have "fs e' ?p = Some (File body)" by (simp add: grows_def)
        moreover have "grows (fs e1) (fs e')" using g12 g2 by (rule grows_trans)
        ultimately show ?thesis using h Inr res ab0 by blast
      qed
    qed
  qed
qed

lemma makedirs_write_result:
  assumes "and_then (makedirs q e) (\<lambda>u e1.
            and_then (open_write w body e1) (\<lambda>u e2. (Inr None, e2))) = (Inr res, e')"
  shows "fs e' w = Some (File body)"
proof -
  from assms obtain u e1 v where "makedirs q e = (Inr u, e1)"
    and w: "open_write w body e1 = (Inr v, e')"
    by (auto simp: and_then_Inr)
  from open_write_fs [OF w] show ?thesis by simp
qed

lemma below_root_absent:
  assumes "wf_fs f" and "\<not> isdir f root"
  shows "f (join root x) = None"
  using assms by (intro wf_below_absent [of f root]) (auto simp: join_def strict_prefix_def)

lemma norm_vocab_dir:
  "x \<noteq> [] \<Longrightarrow> norm (p @ [x, y]) = (if y = [] then p @ [x] else p @ [x, y])"
  by (simp add: norm_def)

lemma skill_template_parts:
  "skill_template s = [([], \<lambda>e. and_then (makedirs (path s) e) (\<lambda>u e1. (Inr None, e1)))]
     @ (''vocab'', add_vocab s) # drop 2 (skill_template s)"
  "skill_template s = [([], \<lambda>e. and_then (makedirs (path s) e) (\<lambda>u e1. (Inr None, e1))),
       (''vocab'', add_vocab s)]
     @ (''dialog'', add_dialog s) # drop 3 (skill_template s)"
  "skill_template s = [([], \<lambda>e. and_then (makedirs (path s) e) (\<lambda>u e1. (Inr None, e1))),
       (''vocab'', add_vocab s), (''dialog'', add_dialog s),
       (''__init__.py'', \<lambda>e. (Inr (Some (init_file s)), e))]
     @ (''README.md'', \<lambda>e. (Inr (Some (readme s)), e)) # drop 5 (skill_template s)"
  by (simp_all add: skill_template_def)

lemma keeps_root_entry:
  "x \<noteq> [] \<Longrightarrow> keeps (join (path s) x) (\<lambda>e. and_then (makedirs (path s) e) (\<lambda>u e1. (Inr None, e1)))"
  by (rule keeps_makedirs) (simp add: norm_path join_def)

lemma keeps_add_vocab: "x \<noteq> [] \<Longrightarrow> x \<noteq> ''vocab'' \<Longrightarrow> keeps (join (path s) x) (add_vocab s)"
  unfolding add_vocab_def
  by (rule keeps_makedirs_write) (auto simp: norm_vocab_dir join_def)

lemma keeps_add_dialog: "x \<noteq> [] \<Longrightarrow> x \<noteq> ''dialog'' \<Longrightarrow> keeps (join (path s) x) (add_dialog s)"
  unfolding add_dialog_def
  by (rule keeps_makedirs_write) (auto simp: norm_vocab_dir join_def)

lemma vocab_written:
  assumes wf: "wf_fs (fs e)" and nd: "\<not> isdir (fs e) (path s)" and nt: "\<not> truthy files"
    and run: "run_template (path s) files (skill_template s) e = (Inr (), e')"
  shows "fs e' (vocab_file s) = Some (File (py_join NL (intent_lines s @ [[]])))"
proof -
  have ok: "\<forall>(f, g) \<in> set ([([], \<lambda>e. and_then (makedirs (path s) e) (\<lambda>u e1. (Inr None, e1)))]
     @ (''vocab'', add_vocab s) # drop 2 (skill_template s)). handler_ok (path s) f g"
    using skill_template_ok [of s] by (simp only: skill_template_parts(1) [symmetric])
  have "\<exists>e0 res e1. fs e0 (join (path s) ''vocab'') = None \<and> add_vocab s e0 = (Inr res, e1) \<and> grows (fs e1) (fs e')
          \<and> (\<forall>body. res = Some body \<and> fs e1 (join (path s) ''vocab'') = None
                \<longrightarrow> fs e' (join (path s) ''vocab'') = Some (File body))"
  proof (rule entry_turn [OF _ nt ok wf])
    show "run_template (path s) files
       ([([], \<lambda>e. and_then (makedirs (path s) e) (\<lambda>u e1. (Inr None, e1)))]
          @ (''vocab'', add_vocab s) # drop 2 (skill_template s)) e = (Inr (), e')"
      using run by (simp only: skill_template_parts(1) [symmetric])
    show "\<forall>(f, g) \<in> set [([], \<lambda>e. and_then (makedirs (path s) e) (\<lambda>u e1. (Inr None, e1)))].
        keeps (join (path s) ''vocab'') g \<and> f \<noteq> ''vocab''"
      by (simp add: keeps_root_entry)
    show "fs e (join (path s) ''vocab'') = None" using wf nd by (rule below_root_absent)
    show "''vocab'' \<noteq> []" by simp
  qed
  then obtain e0 res e1 where h: "add_vocab s e0 = (Inr res, e1)" and g: "grows (fs e1) (fs e')"
    by blast
  from h have "fs e1 (vocab_file s) = Some (File (py_join NL (intent_lines s @ [[]])))"
    unfolding add_vocab_def vocab_file_def by (rule makedirs_write_result)
  with g show ?thesis by (simp add: grows_def)
qed

lemma dialog_written:
  assumes wf: "wf_fs (fs e)" and nd: "\<not> isdir (fs e) (path s)" and nt: "\<not> truthy files"
    and run: "run_template (path s) files (skill_template s) e = (Inr (), e')"
  shows "fs e' (dialog_file s) = Some (File (py_join NL (dialog_lines s @ [[]])))"
proof -
  have ok: "\<forall>(f, g) \<in> set ([([], \<lambda>e. and_then (makedirs (path s) e) (\<lambda>u e1. (Inr None, e1))),
       (''vocab'', add_vocab s)]
     @ (''dialog'', add_dialog s) # drop 3 (skill_template s)). handler_ok (path s) f g"
    using skill_template_ok [of s] by (simp only: skill_template_parts(2) [symmetric])
  have "\<exists>e0 res e1. fs e0 (join (path s) ''dialog'') = None \<and> add_dialog s e0 = (Inr res, e1) \<and> grows (fs e1) (fs e')
          \<and> (\<forall>body. res = Some body \<and> fs e1 (join (path s) ''dialog'') = None
                \<longrightarrow> fs e' (join (path s) ''dialog'') = Some (File body))"
  proof (rule entry_turn [OF _ nt ok wf])
    show "run_template (path s) files
       ([([], \<lambda>e. and_then (makedirs (path s) e) (\<lambda>u e1. (Inr None, e1))),
         (''vocab'', add_vocab s)]
          @ (''dialog'', add_dialog s) # drop 3 (skill_template s)) e = (Inr (), e')"
      using run by (simp only: skill_template_parts(2) [symmetric])
    show "\<forall>(f, g) \<in> set [([], \<lambda>e. and_then (makedirs (path s) e) (\<lambda>u e1. (Inr None, e1))),
         (''vocab'', add_vocab s)].
        keeps (join (path s) ''dialog'') g \<and> f \<noteq> ''dialog''"
      by (simp add: keeps_root_entry keeps_add_vocab)
    show "fs e (join (path s) ''dialog'') = None" using wf nd by (rule below_root_absent)
    show "''dialog'' \<noteq> []" by simp
  qed
  then obtain e0 res e1 where h: "add_dialog s e0 = (Inr res, e1)" and g: "grows (fs e1) (fs e')"
    by blast
  from h have "fs e1 (dialog_file s) = Some (File (py_join NL (dialog_lines s @ [[]])))"
    unfolding add_dialog_def dialog_file_def by (rule makedirs_write_result)
  with g show ?thesis by (simp add: grows_def)
qed

lemma readme_written:
  assumes wf: "wf_fs (fs e)" and nd: "\<not> isdir (fs e) (path s)" and nt: "\<not> truthy files"
    and run: "run_template (path s) files (skill_template s) e = (Inr (), e')"
  shows "fs e' (join (path s) ''README.md'') = Some (File (readme s))"
proof -
  let ?pre = "[([], \<lambda>e. and_then (makedirs (path s) e) (\<lambda>u e1. (Inr None, e1))),
       (''vocab'', add_vocab s), (''dialog'', add_dialog s),
       (''__init__.py'', \<lambda>e. (Inr (Some (init_file s)), e))]"
  let ?h = "\<lambda>e. (Inr (Some (readme s)), e) :: string option outcome"
  have ok: "\<forall>(f, g) \<in> set (?pre @ (''README.md'', ?h) # drop 5 (skill_template s)).
      handler_ok (path s) f g"
    using skill_template_ok [of s] by (simp only: skill_template_parts(3) [symmetric])
  have ab: "fs e (join (path s) ''README.md'') = None" using wf nd by (rule below_root_absent)
  have "\<exists>e0 res e1. fs e0 (join (path s) ''README.md'') = None \<and> ?h e0 = (Inr res, e1) \<and> grows (fs e1) (fs e')
          \<and> (\<forall>body. res = Some body \<and> fs e1 (join (path s) ''README.md'') = None
                \<longrightarrow> fs e' (join (path s) ''README.md'') = Some (File body))"
  proof (rule entry_turn [OF _ nt ok wf _ ab])
    show "run_template (path s) files (?pre @ (''README.md'', ?h) # drop 5 (skill_template s)) e
        = (Inr (), e')"
      using run by (simp only: skill_template_parts(3) [symmetric])
    show "\<forall>(f, g) \<in> set ?pre. keeps (join (path s) ''README.md'') g \<and> f \<noteq> ''README.md''"
      by (simp add: keeps_root_entry keeps_add_vocab keeps_add_dialog keeps_const)
    show "''README.md'' \<noteq> []" by simp
  qed
  then obtain e0 res e1 where a0: "fs e0 (join (path s) ''README.md'') = None"
    and h: "?h e0 = (Inr res, e1)"
    and b: "\<forall>body. res = Some body \<and> fs e1 (join (path s) ''README.md'') = None
                \<longrightarrow> fs e' (join (path s) ''README.md'') = Some (File body)"
    by blast
  from h have "res = Some (readme s)" and "e1 = e0" by simp_all
  with a0 b show ?thesis by simp
qed

lemma category_in_readme: "sublist (category_section (category_primary s)) (readme s)"
proof -
  have "\<exists>a b. readme s = a @ category_section (category_primary s) @ b"
    unfolding readme_def readme_template_def category_section_def
    by (metis append.assoc)
  then show ?thesis by (auto simp: sublist_def)
qed

lemma file_lines_joined:
  assumes "f p = Some (File (py_join NL (ls @ [[]])))" and "\<forall>l \<in> set ls. CHR 0x0A \<notin> set l"
  shows "file_lines f p = ls @ [[]]"
proof -
  have "py_split (CHR 0x0A) (py_join [CHR 0x0A] (ls @ [[]])) = ls @ [[]]"
    using assms(2) by (intro py_split_py_join) auto
  with assms(1) show ?thesis by (simp add: file_lines_def NL_def)
qed

text \<open>
  C8, amended. A run of the whole pipeline that returns, over a root that was no directory,
  leaves a vocabulary file that holds the example phrases and a dialog file that holds the
  response lines, each line capitalized (its first character in upper case, the others in
  lower case) and followed by a line break; and a README that is the rendered template,
  in which the heading of the category section is followed by the primary category in
  bold. For the phrase "set an alarm" the line of the vocabulary file is "Set an alarm",
  for the response "Your alarm is set" the line of the dialog file is "Your alarm is set".
\<close>

theorem scaffold_content:
  "(wf_fs (fs (penv pr)) \<and> \<not> isdir (fs (penv pr)) (path s) \<and> \<not> truthy files
      \<and> initialize_template s files pr = (Inr (), pr') \<longrightarrow>
      fs (penv pr') (vocab_file s)
        = Some (File (py_join NL (map capitalize (ans_intent_lines s) @ [[]])))
      \<and> fs (penv pr') (dialog_file s)
        = Some (File (py_join NL (map capitalize (ans_dialog_lines s) @ [[]])))
      \<and> fs (penv pr') (join (path s) ''README.md'') = Some (File (readme s))
      \<and> ((\<forall>l \<in> set (map capitalize (ans_intent_lines s)). CHR 0x0A \<notin> set l) \<longrightarrow>
           file_lines (fs (penv pr')) (vocab_file s) = map capitalize (ans_intent_lines s) @ [[]])
      \<and> ((\<forall>l \<in> set (map capitalize (ans_dialog_lines s)). CHR 0x0A \<notin> set l) \<longrightarrow>
           file_lines (fs (penv pr')) (dialog_file s) = map capitalize (ans_dialog_lines s) @ [[]]))
   \<and> sublist (category_section (ans_category_primary s)) (readme s)"
proof (intro conjI impI)
  show "sublist (category_section (ans_category_primary s)) (readme s)"
    using category_in_readme [of s] by (simp add: category_primary_def)
next
  assume a: "wf_fs (fs (penv pr)) \<and> \<not> isdir (fs (penv pr)) (path s) \<and> \<not> truthy files
      \<and> initialize_template s files pr = (Inr (), pr')"
  then have wf: "wf_fs (fs (penv pr))" and nd: "\<not> isdir (fs (penv pr)) (path s)"
    and nt: "\<not> truthy files" by simp_all
  from a have run: "run_template (path s) files (skill_template s) (penv pr) = (Inr (), penv pr')"
    by (intro initialize_template_run) simp
  from vocab_written [OF wf nd nt run]
  show v: "fs (penv pr') (vocab_file s)
        = Some (File (py_join NL (map capitalize (ans_intent_lines s) @ [[]])))"
    by (simp add: intent_lines_def)
  from dialog_written [OF wf nd nt run]
  show d: "fs (penv pr') (dialog_file s)
        = Some (File (py_join NL (map capitalize (ans_dialog_lines s) @ [[]])))"
    by (simp add: dialog_lines_def)
  from wf nd nt run
  show "fs (penv pr') (join (path s) ''README.md'') = Some (File (readme s))"
    by (rule readme_written)
  show "file_lines (fs (penv pr')) (vocab_file s) = map capitalize (ans_intent_lines s) @ [[]]"
    if "\<forall>l \<in> set (map capitalize (ans_intent_lines s)). CHR 0x0A \<notin> set l"
    using v that by (rule file_lines_joined)
  show "file_lines (fs (penv pr')) (dialog_file s) = map capitalize (ans_dialog_lines s) @ [[]]"
    if "\<forall>l \<in> set (map capitalize (ans_dialog_lines s)). CHR 0x0A \<notin> set l"
    using d that by (rule file_lines_joined)
qed

lemma scenario_no_root: "\<not> isdir (fs (penv start)) (path scenario)"
  by code_simp

lemma scenario_lines:
  "map capitalize (ans_intent_lines scenario) = [''Set an alarm'']
   \<and> map capitalize (ans_dialog_lines scenario) = [''Your alarm is set'']
   \<and> ans_category_primary scenario = ''Daily''"
  by code_simp

lemma scenario_files:
  "vocab_file scenario
     = [''opt'', ''mycroft'', ''skills'', ''siren-alarm-skill'', ''vocab'', ''en-us'', ''alarm.siren.intent'']
   \<and> dialog_file scenario
     = [''opt'', ''mycroft'', ''skills'', ''siren-alarm-skill'', ''dialog'', ''en-us'', ''alarm.siren.dialog'']"
  by code_simp

theorem scaffold_content_witness:
  "wf_fs (fs (penv start)) \<and> \<not> isdir (fs (penv start)) (path scenario) \<and> \<not> truthy None
   \<and> fst (initialize_template scenario None start) = Inr ()
   \<and> file_lines (fs (penv built))
        [''opt'', ''mycroft'', ''skills'', ''siren-alarm-skill'', ''vocab'', ''en-us'', ''alarm.siren.intent'']
       = [''Set an alarm'', []]
   \<and> file_lines (fs (penv built))
        [''opt'', ''mycroft'', ''skills'', ''siren-alarm-skill'', ''dialog'', ''en-us'', ''alarm.siren.dialog'']
       = [''Your alarm is set'', []]
   \<and> fs (penv built) (join (path scenario) ''README.md'') = Some (File (readme scenario))
   \<and> sublist (category_section ''Daily'') (readme scenario)"
proof -
  have r: "initialize_template scenario None start = (Inr (), built)"
    using scenario_returns by (simp add: prod_eq_iff built_def)
  have nt: "\<not> truthy None" by (simp add: truthy_def)
  have nl: "\<forall>l \<in> set (map capitalize (ans_intent_lines scenario)). CHR 0x0A \<notin> set l"
    "\<forall>l \<in> set (map capitalize (ans_dialog_lines scenario)). CHR 0x0A \<notin> set l"
    by (simp_all add: scenario_lines)
  note a = scaffold_content [of start scenario None built]
  from a wf_start scenario_no_root nt r nl
  have "file_lines (fs (penv built)) (vocab_file scenario)
        = map capitalize (ans_intent_lines scenario) @ [[]]"
    and "file_lines (fs (penv built)) (dialog_file scenario)
        = map capitalize (ans_dialog_lines scenario) @ [[]]"
    and "fs (penv built) (join (path scenario) ''README.md'') = Some (File (readme scenario))"
    and "sublist (category_section (ans_category_primary scenario)) (readme scenario)"
    by blast+
  then show ?thesis
    using wf_start scenario_no_root nt scenario_returns
    by (simp add: scenario_lines scenario_files)
qed

text \<open>
  C8 as stated fails on the case of the lines: in the project built for the scenario the
  line of the vocabulary file is "Set an alarm", not "set an alarm", and the line of the
  dialog file is "Your alarm is set", not "your alarm is set".
\<close>

theorem scaffold_content_counterexample:
  "fst (initialize_template scenario None start) = Inr ()
   \<and> ans_intent_lines scenario = [''set an alarm'']
   \<and> ans_dialog_lines scenario = [''Your alarm is set'']
   \<and> file_lines (fs (penv built)) (vocab_file scenario) = [''Set an alarm'', []]
   \<and> ''set an alarm'' \<notin> set (file_lines (fs (penv built)) (vocab_file scenario))
   \<and> file_lines (fs (penv built)) (dialog_file scenario) = [''Your alarm is set'', []]
   \<and> ''your alarm is set'' \<notin> set (file_lines (fs (penv built)) (dialog_file scenario))"
  by code_simp

section \<open>The license prompt\<close>

lemma shutil_copy_fs_only:
  "fs e2 = fs e \<Longrightarrow>
   fs (snd (shutil_copy src dst e2)) = fs (snd (shutil_copy src dst e))
   \<and> fst (shutil_copy src dst e2) = fst (shutil_copy src dst e)"
  by (auto simp: shutil_copy_def open_write_def split: option.splits node.splits)

lemma license_digit:
  assumes d: "isdigit (ans_license s)"
    and i: "py_index (license_files s) (py_int (ans_license s) - 1) = Inr src"
  shows "fs (snd (license s e)) = fs (snd (shutil_copy src (join (path s) ''LICENSE.md'') e))
       \<and> fst (license s e)
           = (case fst (shutil_copy src (join (path s) ''LICENSE.md'') e) of
                Inl err \<Rightarrow> Inl err | Inr u \<Rightarrow> Inr None)"
proof -
  define e2 where "e2 = foldl (\<lambda>e' (num, pth). print (str_nat num @ '': '' @ pretty_license pth) e')
      (print (''For uploading a skill a license is required.'' @ NL
                 @ ''Choose one of the licenses listed below or add one later.'' @ NL) e)
      (zip [1 ..< 1 + length (license_files s)] (license_files s))"
  have f2: "fs e2 = fs e"
    unfolding e2_def by (simp only: fs_foldl_print fs_print)
  have "fs (snd (license s e)) = fs (snd (shutil_copy src (join (path s) ''LICENSE.md'') e2))
    \<and> fst (license s e)
           = (case fst (shutil_copy src (join (path s) ''LICENSE.md'') e2) of
                Inl err \<Rightarrow> Inl err | Inr u \<Rightarrow> Inr None)"
    using d i by (simp add: license_def Let_def e2_def and_then_cases fs_print split: sum.splits)
  with shutil_copy_fs_only [OF f2] show ?thesis by simp
qed

lemma license_index_error:
  assumes d: "isdigit (ans_license s)"
    and i: "py_index (license_files s) (py_int (ans_license s) - 1) = Inl err"
  shows "fst (license s e) = Inl err \<and> fs (snd (license s e)) = fs e"
  using d i by (simp add: license_def Let_def fs_foldl_print fs_print)

lemma license_skip:
  "\<not> isdigit (ans_license s) \<Longrightarrow> fst (license s e) = Inr None \<and> fs (snd (license s e)) = fs e"
  by (simp add: license_def Let_def fs_foldl_print fs_print)

lemma py_int_nonneg_aux: "0 \<le> n \<Longrightarrow> 0 \<le> foldl (\<lambda>n c. 10 * n + digit_value c) n s"
proof (induction s arbitrary: n)
  case Nil
  then show ?case by simp
next
  case (Cons c s)
  have "0 \<le> digit_value c"
    by (auto simp: digit_value_def digits_def split: option.splits if_splits)
  with Cons.prems have "0 \<le> 10 * n + digit_value c" by simp
  then show ?case using Cons.IH by simp
qed

lemma py_int_nonneg: "0 \<le> py_int s"
  by (simp add: py_int_def py_int_nonneg_aux)

text \<open>
  C10. A choice made of digits is used as an index without a check against the range of
  the list: the index is the number less one, never below \<open>-1\<close>; for the number 0 and a
  list that is not empty the last license file is the one copied; for a number from 1 to the
  length of the list it is the file of that number; for a number above the length, and for
  0 with no file on offer, \<^verbatim>\<open>IndexError\<close> is raised and nothing is copied.
\<close>

theorem license_index_unguarded:
  "(isdigit (ans_license s) \<longrightarrow> - 1 \<le> py_int (ans_license s) - 1)
   \<and> (isdigit (ans_license s) \<and> py_int (ans_license s) = 0 \<and> license_files s \<noteq> [] \<longrightarrow>
        py_index (license_files s) (py_int (ans_license s) - 1) = Inr (last (license_files s))
        \<and> fs (snd (license s e))
            = fs (snd (shutil_copy (last (license_files s)) (join (path s) ''LICENSE.md'') e)))
   \<and> (isdigit (ans_license s) \<and> 1 \<le> py_int (ans_license s)
        \<and> py_int (ans_license s) \<le> int (length (license_files s)) \<longrightarrow>
        fs (snd (license s e))
          = fs (snd (shutil_copy (license_files s ! nat (py_int (ans_license s) - 1))
                       (join (path s) ''LICENSE.md'') e)))
   \<and> (isdigit (ans_license s) \<and> int (length (license_files s)) < py_int (ans_license s) \<longrightarrow>
        fst (license s e) = Inl IndexError \<and> fs (snd (license s e)) = fs e)
   \<and> (isdigit (ans_license s) \<and> py_int (ans_license s) = 0 \<and> license_files s = [] \<longrightarrow>
        fst (license s e) = Inl IndexError \<and> fs (snd (license s e)) = fs e)"
proof (intro conjI impI)
  show "- 1 \<le> py_int (ans_license s) - 1"
    using py_int_nonneg [of "ans_license s"] by simp
next
  assume a: "isdigit (ans_license s) \<and> py_int (ans_license s) = 0 \<and> license_files s \<noteq> []"
  then show i: "py_index (license_files s) (py_int (ans_license s) - 1) = Inr (last (license_files s))"
    by (cases "license_files s") (auto simp: py_index_def last_conv_nth nat_diff_distrib)
  from a license_digit [OF _ i]
  show "fs (snd (license s e))
      = fs (snd (shutil_copy (last (license_files s)) (join (path s) ''LICENSE.md'') e))"
    by simp
next
  assume a: "isdigit (ans_license s) \<and> 1 \<le> py_int (ans_license s)
        \<and> py_int (ans_license s) \<le> int (length (license_files s))"
  then have i: "py_index (license_files s) (py_int (ans_license s) - 1)
      = Inr (license_files s ! nat (py_int (ans_license s) - 1))"
    by (auto simp: py_index_def)
  from a license_digit [OF _ i]
  show "fs (snd (license s e))
      = fs (snd (shutil_copy (license_files s ! nat (py_int (ans_license s) - 1))
                       (join (path s) ''LICENSE.md'') e))"
    by simp
next
  assume a: "isdigit (ans_license s) \<and> int (length (license_files s)) < py_int (ans_license s)"
  then have i: "py_index (license_files s) (py_int (ans_license s) - 1) = Inl IndexError"
    by (auto simp: py_index_def)
  from a license_index_error [OF _ i]
  show "fst (license s e) = Inl IndexError" "fs (snd (license s e)) = fs e" by simp_all
next
  assume a: "isdigit (ans_license s) \<and> py_int (ans_license s) = 0 \<and> license_files s = []"
  then have i: "py_index (license_files s) (py_int (ans_license s) - 1) = Inl IndexError"
    by (auto simp: py_index_def)
  from a license_index_error [OF _ i]
  show "fst (license s e) = Inl IndexError" "fs (snd (license s e)) = fs e" by simp_all
qed

lemma picking_zero_facts:
  "isdigit (ans_license picking_zero) \<and> py_int (ans_license picking_zero) = 0
   \<and> license_files picking_zero \<noteq> []
   \<and> last (license_files picking_zero) = [''opt'', ''msk'', ''licenses'', ''Apache-2.0.md'']"
  by (simp add: picking_zero_def scenario_def isdigit_def digits_def py_int_def digit_value_def)

lemma failing_facts:
  "isdigit (ans_license failing) \<and> int (length (license_files failing)) < py_int (ans_license failing)"
  by (simp add: failing_def scenario_def isdigit_def digits_def py_int_def digit_value_def)

lemma copy_into_built:
  "fs (snd (shutil_copy [''opt'', ''msk'', ''licenses'', ''Apache-2.0.md'']
              (join (path picking_zero) ''LICENSE.md'') (penv built)))
     (join (path picking_zero) ''LICENSE.md'') = Some (File ''Apache License'')"
  by code_simp

theorem license_index_unguarded_witness:
  "isdigit (ans_license picking_zero) \<and> py_int (ans_license picking_zero) = 0
   \<and> license_files picking_zero \<noteq> []
   \<and> fs (snd (license picking_zero (penv built))) (join (path picking_zero) ''LICENSE.md'')
       = Some (File ''Apache License'')
   \<and> isdigit (ans_license failing)
   \<and> int (length (license_files failing)) < py_int (ans_license failing)
   \<and> fst (license failing (penv built)) = Inl IndexError"
proof -
  note z = license_index_unguarded [of picking_zero "penv built"]
  note f = license_index_unguarded [of failing "penv built"]
  from z picking_zero_facts
  have "fs (snd (license picking_zero (penv built)))
      = fs (snd (shutil_copy (last (license_files picking_zero))
                   (join (path picking_zero) ''LICENSE.md'') (penv built)))"
    by blast
  with picking_zero_facts copy_into_built
  have "fs (snd (license picking_zero (penv built))) (join (path picking_zero) ''LICENSE.md'')
       = Some (File ''Apache License'')"
    by simp
  moreover from f failing_facts have "fst (license failing (penv built)) = Inl IndexError"
    by blast
  ultimately show ?thesis using picking_zero_facts failing_facts by blast
qed

section \<open>The colour prompt\<close>

text \<open>
  C5. The validator of the colour prompt at the empty string raises \<^verbatim>\<open>IndexError\<close>; on
  any other input it says whether the first character is \<^verbatim>\<open>#\<close>.
\<close>

theorem color_validator_empty_raises:
  "color_validator [] = Inl IndexError
   \<and> color_validator (c # cs) = Inr (c = CHR ''#'')"
  by (auto simp: color_validator_def py_index_def)

section \<open>Creating the remote repository\<close>

lemma create_github_repo_raise:
  assumes "git_fails e [''remote''] = None"
    and "''origin'' \<notin> set (py_split (CHR 0x0A) (git_remote e))"
    and "ans_create_repo s"
    and "create_repo (user s) (chosen_repo_name s g) (short_description s) = Inl err"
  shows "fst (create_github_repo s g e)
     = Inl (case err of
              GithubException status \<Rightarrow>
                if status = 422 then GithubRepoExists (chosen_repo_name s g) err else err
            | _ \<Rightarrow> err)"
  using assms
  by (simp add: create_github_repo_def git_remote_names_def git_run_def and_then_def git_remote_def
      split: exn.splits)

lemma perform_catches:
  assumes i: "initialize_template s None pr = (Inr (), pr1)"
    and c: "commit_changes s (penv pr1) = (Inr (), e2)"
    and g: "create_github_repo s None e2 = (Inl x, e3)"
  shows "perform s pr =
     (if is_GithubRepoExists x
      then (Inr (), pr1\<lparr>penv := print (''Created skill at: /'' @ py_join ''/'' (path s))
                                   (print (exn_text x) e3)\<rparr>)
      else (Inl x, pr1\<lparr>penv := e3\<rparr>))"
  using i c g by (simp add: perform_def print_error_def)

text \<open>
  C6. When the hosting API answers the creation with a \<^verbatim>\<open>GithubException\<close>, status 422
  becomes \<^verbatim>\<open>GithubRepoExists\<close> of the repository name, chained from the API's exception,
  and any other status is raised again as it is. In \<^verbatim>\<open>perform\<close> the first is caught and
  printed, and the run goes on to its last line; the second ends the run.
\<close>

theorem create_github_repo_collision:
  "(git_fails e [''remote''] = None \<and> ''origin'' \<notin> set (py_split (CHR 0x0A) (git_remote e))
      \<and> ans_create_repo s
      \<and> create_repo (user s) (chosen_repo_name s g) (short_description s)
          = Inl (GithubException status) \<longrightarrow>
      fst (create_github_repo s g e)
        = (if status = 422
           then Inl (GithubRepoExists (chosen_repo_name s g) (GithubException status))
           else Inl (GithubException status)))
   \<and> (initialize_template s None pr = (Inr (), pr1) \<and> commit_changes s (penv pr1) = (Inr (), e2)
      \<and> create_github_repo s None e2 = (Inl (GithubRepoExists n cause), e3) \<longrightarrow>
      fst (perform s pr) = Inr ()
      \<and> stdout (penv (snd (perform s pr)))
          = stdout e3 @ [''GithubRepoExists: '' @ n, ''Created skill at: /'' @ py_join ''/'' (path s)])
   \<and> (initialize_template s None pr = (Inr (), pr1) \<and> commit_changes s (penv pr1) = (Inr (), e2)
      \<and> create_github_repo s None e2 = (Inl (GithubException status), e3) \<longrightarrow>
      fst (perform s pr) = Inl (GithubException status))"
proof (intro conjI impI)
  assume "git_fails e [''remote''] = None \<and> ''origin'' \<notin> set (py_split (CHR 0x0A) (git_remote e))
      \<and> ans_create_repo s
      \<and> create_repo (user s) (chosen_repo_name s g) (short_description s)
          = Inl (GithubException status)"
  then show "fst (create_github_repo s g e)
        = (if status = 422
           then Inl (GithubRepoExists (chosen_repo_name s g) (GithubException status))
           else Inl (GithubException status))"
    using create_github_repo_raise [of e s g "GithubException status"] by simp
next
  assume a: "initialize_template s None pr = (Inr (), pr1) \<and> commit_changes s (penv pr1) = (Inr (), e2)
      \<and> create_github_repo s None e2 = (Inl (GithubRepoExists n cause), e3)"
  then have p: "perform s pr =
      (Inr (), pr1\<lparr>penv := print (''Created skill at: /'' @ py_join ''/'' (path s))
                                   (print (exn_text (GithubRepoExists n cause)) e3)\<rparr>)"
    using perform_catches [of s pr pr1 e2 "GithubRepoExists n cause" e3]
    by (simp add: is_GithubRepoExists_def)
  show "fst (perform s pr) = Inr ()" by (simp add: p)
  show "stdout (penv (snd (perform s pr)))
          = stdout e3 @ [''GithubRepoExists: '' @ n, ''Created skill at: /'' @ py_join ''/'' (path s)]"
    by (simp add: p print_def exn_text_def)
next
  assume a: "initialize_template s None pr = (Inr (), pr1) \<and> commit_changes s (penv pr1) = (Inr (), e2)
      \<and> create_github_repo s None e2 = (Inl (GithubException status), e3)"
  then show "fst (perform s pr) = Inl (GithubException status)"
    using perform_catches [of s pr pr1 e2 "GithubException status" e3]
    by (simp add: is_GithubRepoExists_def)
qed

lemma wanting_repo_raises:
  "fst (create_github_repo wanting_repo None start_env)
     = Inl (GithubRepoExists ''siren-alarm-skill'' (GithubException 422))"
  by code_simp

lemma wanting_repo_perform: "fst (perform wanting_repo start) = Inr ()"
  by code_simp

lemma wanting_repo_stdout:
  "drop 2 (stdout (penv (snd (perform wanting_repo start))))
     = [''GithubRepoExists: siren-alarm-skill'',
        ''Created skill at: /opt/mycroft/skills/siren-alarm-skill'']"
  by code_simp

lemma unauthorized_perform: "fst (perform unauthorized start) = Inl (GithubException 401)"
  by code_simp

lemma wanting_repo_pre:
  "git_fails start_env [''remote''] = None
   \<and> ''origin'' \<notin> set (py_split (CHR 0x0A) (git_remote start_env))
   \<and> ans_create_repo wanting_repo
   \<and> create_repo (user wanting_repo) (chosen_repo_name wanting_repo None)
        (short_description wanting_repo) = Inl (GithubException 422)
   \<and> chosen_repo_name wanting_repo None = ''siren-alarm-skill''"
  by code_simp

lemma unauthorized_pre:
  "ans_create_repo unauthorized
   \<and> create_repo (user unauthorized) (chosen_repo_name unauthorized None)
        (short_description unauthorized) = Inl (GithubException 401)"
  by code_simp

lemma wanting_repo_steps:
  "fst (initialize_template wanting_repo None start) = Inr ()
   \<and> fst (commit_changes wanting_repo (penv (snd (initialize_template wanting_repo None start)))) = Inr ()
   \<and> fst (create_github_repo wanting_repo None
        (snd (commit_changes wanting_repo (penv (snd (initialize_template wanting_repo None start))))))
       = Inl (GithubRepoExists ''siren-alarm-skill'' (GithubException 422))"
  by code_simp

lemma unauthorized_steps:
  "fst (initialize_template unauthorized None start) = Inr ()
   \<and> fst (commit_changes unauthorized (penv (snd (initialize_template unauthorized None start)))) = Inr ()
   \<and> fst (create_github_repo unauthorized None
        (snd (commit_changes unauthorized (penv (snd (initialize_template unauthorized None start))))))
       = Inl (GithubException 401)"
  by code_simp

theorem create_github_repo_collision_witness:
  "fst (create_github_repo wanting_repo None start_env)
     = Inl (GithubRepoExists ''siren-alarm-skill'' (GithubException 422))
   \<and> fst (create_github_repo unauthorized None start_env) = Inl (GithubException 401)
   \<and> fst (perform wanting_repo start) = Inr ()
   \<and> drop 2 (stdout (penv (snd (perform wanting_repo start))))
       = [''GithubRepoExists: siren-alarm-skill'',
          ''Created skill at: /opt/mycroft/skills/siren-alarm-skill'']
   \<and> fst (perform unauthorized start) = Inl (GithubException 401)"
proof -
  define pr1 where "pr1 = snd (initialize_template wanting_repo None start)"
  define e2 where "e2 = snd (commit_changes wanting_repo (penv pr1))"
  define e3 where "e3 = snd (create_github_repo wanting_repo None e2)"
  define qr1 where "qr1 = snd (initialize_template unauthorized None start)"
  define f2 where "f2 = snd (commit_changes unauthorized (penv qr1))"
  define f3 where "f3 = snd (create_github_repo unauthorized None f2)"
  have w: "initialize_template wanting_repo None start = (Inr (), pr1)"
    "commit_changes wanting_repo (penv pr1) = (Inr (), e2)"
    "create_github_repo wanting_repo None e2
       = (Inl (GithubRepoExists ''siren-alarm-skill'' (GithubException 422)), e3)"
    using wanting_repo_steps by (simp_all add: prod_eq_iff pr1_def e2_def e3_def)
  have u: "initialize_template unauthorized None start = (Inr (), qr1)"
    "commit_changes unauthorized (penv qr1) = (Inr (), f2)"
    "create_github_repo unauthorized None f2 = (Inl (GithubException 401), f3)"
    using unauthorized_steps by (simp_all add: prod_eq_iff qr1_def f2_def f3_def)
  have same: "git_fails start_env [''remote''] = None
      \<and> ''origin'' \<notin> set (py_split (CHR 0x0A) (git_remote start_env))"
    using wanting_repo_pre by blast
  note a = create_github_repo_collision [of start_env wanting_repo None 422 start pr1 e2
      "''siren-alarm-skill''" "GithubException 422" e3]
  note b = create_github_repo_collision [of start_env unauthorized None 401 start qr1 f2
      "''siren-alarm-skill''" "GithubException 422" f3]
  from wanting_repo_pre
  have n: "chosen_repo_name wanting_repo None = ''siren-alarm-skill''"
    and h: "git_fails start_env [''remote''] = None
      \<and> ''origin'' \<notin> set (py_split (CHR 0x0A) (git_remote start_env))
      \<and> ans_create_repo wanting_repo
      \<and> create_repo (user wanting_repo) (chosen_repo_name wanting_repo None)
          (short_description wanting_repo) = Inl (GithubException 422)"
    by blast+
  from a h
  have "fst (create_github_repo wanting_repo None start_env)
     = (if (422 :: nat) = 422
        then Inl (GithubRepoExists (chosen_repo_name wanting_repo None) (GithubException 422))
        else Inl (GithubException 422))"
    by blast
  then have c1: "fst (create_github_repo wanting_repo None start_env)
     = Inl (GithubRepoExists ''siren-alarm-skill'' (GithubException 422))"
    by (simp add: n)
  from unauthorized_pre same
  have k: "git_fails start_env [''remote''] = None
      \<and> ''origin'' \<notin> set (py_split (CHR 0x0A) (git_remote start_env))
      \<and> ans_create_repo unauthorized
      \<and> create_repo (user unauthorized) (chosen_repo_name unauthorized None)
          (short_description unauthorized) = Inl (GithubException 401)"
    by blast
  from b k
  have "fst (create_github_repo unauthorized None start_env)
     = (if (401 :: nat) = 422
        then Inl (GithubRepoExists (chosen_repo_name unauthorized None) (GithubException 401))
        else Inl (GithubException 401))"
    by blast
  then have c2: "fst (create_github_repo unauthorized None start_env) = Inl (GithubException 401)"
    by simp
  from a w have c3: "fst (perform wanting_repo start) = Inr ()" by blast
  from b u have c5: "fst (perform unauthorized start) = Inl (GithubException 401)" by blast
  from c1 c2 c3 c5 wanting_repo_stdout show ?thesis by blast
qed

section \<open>Linking a remote repository\<close>

lemma link_github_repo_pull:
  assumes "git_fails e [''remote''] = None"
    and "''origin'' \<notin> set (py_split (CHR 0x0A) (git_remote e))"
    and "ans_link_repo s"
    and "get_repo (user s) (chosen_repo_name s g) = Inr repo"
    and "git_fails e [''remote'', ''add'', ''origin'', html_url repo] = None"
    and "git_fails e [''fetch''] = None"
    and "git_fails e [''pull'', ''origin'', ''master''] = Some err"
  shows "fst (link_github_repo s g e)
     = Inl (case err of
              GitCommandError status \<Rightarrow>
                if status = 128 then UnrelatedGithubHistory (chosen_repo_name s g) err else err
            | _ \<Rightarrow> err)"
  using assms
  by (simp add: link_github_repo_def git_remote_names_def git_run_def and_then_def git_remote_def
      git_remote_add_def split: exn.splits)

text \<open>
  C7. When everything up to the pull has succeeded and the pull raises git's error with
  status 128, \<^verbatim>\<open>link_github_repo\<close> raises \<^verbatim>\<open>UnrelatedGithubHistory\<close> of the repository
  name, chained from that error; with any other status it raises the error as it is.
\<close>

theorem link_github_repo_unrelated:
  "git_fails e [''remote''] = None \<and> ''origin'' \<notin> set (py_split (CHR 0x0A) (git_remote e))
     \<and> ans_link_repo s \<and> get_repo (user s) (chosen_repo_name s g) = Inr repo
     \<and> git_fails e [''remote'', ''add'', ''origin'', html_url repo] = None
     \<and> git_fails e [''fetch''] = None
     \<and> git_fails e [''pull'', ''origin'', ''master''] = Some (GitCommandError status) \<longrightarrow>
   fst (link_github_repo s g e)
     = (if status = 128
        then Inl (UnrelatedGithubHistory (chosen_repo_name s g) (GitCommandError status))
        else Inl (GitCommandError status))"
proof
  assume a: "git_fails e [''remote''] = None \<and> ''origin'' \<notin> set (py_split (CHR 0x0A) (git_remote e))
     \<and> ans_link_repo s \<and> get_repo (user s) (chosen_repo_name s g) = Inr repo
     \<and> git_fails e [''remote'', ''add'', ''origin'', html_url repo] = None
     \<and> git_fails e [''fetch''] = None
     \<and> git_fails e [''pull'', ''origin'', ''master''] = Some (GitCommandError status)"
  then show "fst (link_github_repo s g e)
     = (if status = 128
        then Inl (UnrelatedGithubHistory (chosen_repo_name s g) (GitCommandError status))
        else Inl (GitCommandError status))"
    using link_github_repo_pull [of e s g repo "GitCommandError status"] by simp
qed

lemma linking_pre:
  "ans_link_repo linking
   \<and> get_repo (user linking) (chosen_repo_name linking None)
       = Inr \<lparr>repo_name = ''siren-alarm-skill'',
              html_url = ''https://github.com/jane/siren-alarm-skill''\<rparr>
   \<and> chosen_repo_name linking None = ''siren-alarm-skill''
   \<and> ''origin'' \<notin> set (py_split (CHR 0x0A) (git_remote (start_env\<lparr>git_fails := diverged_git\<rparr>)))
   \<and> ''origin'' \<notin> set (py_split (CHR 0x0A) (git_remote (start_env\<lparr>git_fails := offline_git\<rparr>)))"
  by code_simp

lemma diverged_pre:
  "git_fails (start_env\<lparr>git_fails := diverged_git\<rparr>) [''remote''] = None
   \<and> git_fails (start_env\<lparr>git_fails := diverged_git\<rparr>)
        [''remote'', ''add'', ''origin'', ''https://github.com/jane/siren-alarm-skill''] = None
   \<and> git_fails (start_env\<lparr>git_fails := diverged_git\<rparr>) [''fetch''] = None
   \<and> git_fails (start_env\<lparr>git_fails := diverged_git\<rparr>) [''pull'', ''origin'', ''master'']
       = Some (GitCommandError 128)"
  by (simp add: diverged_git_def)

lemma offline_pre:
  "git_fails (start_env\<lparr>git_fails := offline_git\<rparr>) [''remote''] = None
   \<and> git_fails (start_env\<lparr>git_fails := offline_git\<rparr>)
        [''remote'', ''add'', ''origin'', ''https://github.com/jane/siren-alarm-skill''] = None
   \<and> git_fails (start_env\<lparr>git_fails := offline_git\<rparr>) [''fetch''] = None
   \<and> git_fails (start_env\<lparr>git_fails := offline_git\<rparr>) [''pull'', ''origin'', ''master'']
       = Some (GitCommandError 1)"
  by (simp add: offline_git_def)

theorem link_github_repo_unrelated_witness:
  "fst (link_github_repo linking None (start_env\<lparr>git_fails := diverged_git\<rparr>))
     = Inl (UnrelatedGithubHistory ''siren-alarm-skill'' (GitCommandError 128))
   \<and> fst (link_github_repo linking None (start_env\<lparr>git_fails := offline_git\<rparr>))
     = Inl (GitCommandError 1)"
proof -
  let ?repo = "\<lparr>repo_name = ''siren-alarm-skill'',
              html_url = ''https://github.com/jane/siren-alarm-skill''\<rparr>"
  note a = link_github_repo_unrelated [of "start_env\<lparr>git_fails := diverged_git\<rparr>" linking None
      ?repo 128]
  note b = link_github_repo_unrelated [of "start_env\<lparr>git_fails := offline_git\<rparr>" linking None
      ?repo 1]
  from linking_pre have n: "chosen_repo_name linking None = ''siren-alarm-skill''" by blast
  have u: "html_url ?repo = ''https://github.com/jane/siren-alarm-skill''" by simp
  have ha: "git_fails (start_env\<lparr>git_fails := diverged_git\<rparr>) [''remote''] = None
     \<and> ''origin'' \<notin> set (py_split (CHR 0x0A) (git_remote (start_env\<lparr>git_fails := diverged_git\<rparr>)))
     \<and> ans_link_repo linking \<and> get_repo (user linking) (chosen_repo_name linking None) = Inr ?repo
     \<and> git_fails (start_env\<lparr>git_fails := diverged_git\<rparr>)
          [''remote'', ''add'', ''origin'', html_url ?repo] = None
     \<and> git_fails (start_env\<lparr>git_fails := diverged_git\<rparr>) [''fetch''] = None
     \<and> git_fails (start_env\<lparr>git_fails := diverged_git\<rparr>) [''pull'', ''origin'', ''master'']
         = Some (GitCommandError 128)"
    unfolding u using linking_pre diverged_pre by blast
  have hb: "git_fails (start_env\<lparr>git_fails := offline_git\<rparr>) [''remote''] = None
     \<and> ''origin'' \<notin> set (py_split (CHR 0x0A) (git_remote (start_env\<lparr>git_fails := offline_git\<rparr>)))
     \<and> ans_link_repo linking \<and> get_repo (user linking) (chosen_repo_name linking None) = Inr ?repo
     \<and> git_fails (start_env\<lparr>git_fails := offline_git\<rparr>)
          [''remote'', ''add'', ''origin'', html_url ?repo] = None
     \<and> git_fails (start_env\<lparr>git_fails := offline_git\<rparr>) [''fetch''] = None
     \<and> git_fails (start_env\<lparr>git_fails := offline_git\<rparr>) [''pull'', ''origin'', ''master'']
         = Some (GitCommandError 1)"
    unfolding u using linking_pre offline_pre by blast
  from a ha
  have "fst (link_github_repo linking None (start_env\<lparr>git_fails := diverged_git\<rparr>))
     = (if (128 :: nat) = 128
        then Inl (UnrelatedGithubHistory (chosen_repo_name linking None) (GitCommandError 128))
        else Inl (GitCommandError 128))"
    by blast
  then have c1: "fst (link_github_repo linking None (start_env\<lparr>git_fails := diverged_git\<rparr>))
     = Inl (UnrelatedGithubHistory ''siren-alarm-skill'' (GitCommandError 128))"
    by (simp add: n)
  from b hb
  have "fst (link_github_repo linking None (start_env\<lparr>git_fails := offline_git\<rparr>))
     = (if (1 :: nat) = 128
        then Inl (UnrelatedGithubHistory (chosen_repo_name linking None) (GitCommandError 1))
        else Inl (GitCommandError 1))"
    by blast
  then have c2: "fst (link_github_repo linking None (start_env\<lparr>git_fails := offline_git\<rparr>))
     = Inl (GitCommandError 1)"
    by simp
  from c1 c2 show ?thesis by blast
qed

section \<open>The entities\<close>

lemma not_ident_braces: "\<not> ident_char (CHR ''{'')" "\<not> ident_char (CHR ''}'')"
  by (simp_all add: ident_char_def lower_letters_def upper_letters_def)

lemma takeWhile_idents:
  "idents x \<Longrightarrow> takeWhile ident_char (x @ CHR ''}'' # post) = x"
  by (induction x) (auto simp: idents_def not_ident_braces)

lemma dropWhile_idents:
  "idents x \<Longrightarrow> dropWhile ident_char (x @ CHR ''}'' # post) = CHR ''}'' # post"
  by (induction x) (auto simp: idents_def not_ident_braces)

lemma idents_takeWhile: "idents (takeWhile ident_char s)"
  by (auto simp: idents_def dest: set_takeWhileD)

lemma brace_after_run:
  "idents run \<Longrightarrow> run @ rest = pre @ CHR ''{'' # tail \<Longrightarrow>
   \<exists>pre'. pre = run @ pre' \<and> rest = pre' @ CHR ''{'' # tail"
proof (induction run arbitrary: pre)
  case Nil
  then show ?case by simp
next
  case (Cons r rs)
  show ?case
  proof (cases pre)
    case Nil
    with Cons.prems have "r = CHR ''{''" by simp
    with Cons.prems(1) show ?thesis by (simp add: idents_def not_ident_braces)
  next
    case (Cons p ps)
    with Cons.prems have "r = p" "rs @ rest = ps @ CHR ''{'' # tail" by simp_all
    moreover from Cons.prems(1) have "idents rs" by (simp add: idents_def)
    ultimately show ?thesis using Cons.IH [of ps] Cons by auto
  qed
qed

lemma found_Nil: "\<not> found b x []"
  by (simp add: found_def)

lemma found_step:
  "\<not> (b \<and> (\<exists>post. c # cs = x @ CHR ''}'' # post)) \<Longrightarrow>
   found b x (c # cs) \<longleftrightarrow> found (c = CHR ''{'') x cs"
proof -
  assume nb: "\<not> (b \<and> (\<exists>post. c # cs = x @ CHR ''}'' # post))"
  have "(\<exists>pre post. c # cs = pre @ CHR ''{'' # x @ CHR ''}'' # post)
     \<longleftrightarrow> (c = CHR ''{'' \<and> (\<exists>post. cs = x @ CHR ''}'' # post))
        \<or> (\<exists>pre post. cs = pre @ CHR ''{'' # x @ CHR ''}'' # post)"
    (is "?L \<longleftrightarrow> ?R")
  proof
    assume ?L
    then obtain pre post where e: "c # cs = pre @ CHR ''{'' # x @ CHR ''}'' # post" by blast
    show ?R
    proof (cases pre)
      case Nil
      with e show ?thesis by auto
    next
      case (Cons p ps)
      with e have "cs = ps @ CHR ''{'' # x @ CHR ''}'' # post" by simp
      then show ?thesis by blast
    qed
  next
    assume ?R
    then show ?L
    proof
      assume "c = CHR ''{'' \<and> (\<exists>post. cs = x @ CHR ''}'' # post)"
      then obtain post where "c # cs = [] @ CHR ''{'' # x @ CHR ''}'' # post" by auto
      then show ?L by blast
    next
      assume "\<exists>pre post. cs = pre @ CHR ''{'' # x @ CHR ''}'' # post"
      then obtain pre post where "c # cs = (c # pre) @ CHR ''{'' # x @ CHR ''}'' # post" by auto
      then show ?L by blast
    qed
  qed
  with nb show ?thesis by (auto simp: found_def)
qed

lemma found_here:
  assumes b: "b" and t: "take 1 (dropWhile ident_char s) = ''}''"
  shows "found b x s \<longleftrightarrow> x = takeWhile ident_char s \<or> found False x (dropWhile ident_char s)"
proof -
  obtain post where d: "dropWhile ident_char s = CHR ''}'' # post"
    using t by (cases "dropWhile ident_char s") auto
  have s: "s = takeWhile ident_char s @ CHR ''}'' # post"
    using d takeWhile_dropWhile_id [of ident_char s] by simp
  have first: "idents x \<and> (\<exists>post'. s = x @ CHR ''}'' # post') \<longleftrightarrow> x = takeWhile ident_char s"
  proof
    assume "idents x \<and> (\<exists>post'. s = x @ CHR ''}'' # post')"
    then show "x = takeWhile ident_char s" by (auto simp: takeWhile_idents)
  next
    assume "x = takeWhile ident_char s"
    with s show "idents x \<and> (\<exists>post'. s = x @ CHR ''}'' # post')"
      by (auto simp: idents_takeWhile)
  qed
  have second: "(\<exists>pre post'. s = pre @ CHR ''{'' # x @ CHR ''}'' # post')
     \<longleftrightarrow> (\<exists>pre post'. dropWhile ident_char s = pre @ CHR ''{'' # x @ CHR ''}'' # post')"
    (is "?L \<longleftrightarrow> ?R")
  proof
    assume ?L
    then obtain pre post' where e: "s = pre @ CHR ''{'' # x @ CHR ''}'' # post'" by blast
    have "takeWhile ident_char s @ dropWhile ident_char s = pre @ CHR ''{'' # x @ CHR ''}'' # post'"
      using e by simp
    with idents_takeWhile obtain pre' where
      "dropWhile ident_char s = pre' @ CHR ''{'' # x @ CHR ''}'' # post'"
      by (blast dest: brace_after_run)
    then show ?R by blast
  next
    assume ?R
    then obtain pre post' where
      "dropWhile ident_char s = pre @ CHR ''{'' # x @ CHR ''}'' # post'" by blast
    then have "s = (takeWhile ident_char s @ pre) @ CHR ''{'' # x @ CHR ''}'' # post'"
      using takeWhile_dropWhile_id [of ident_char s] by simp
    then show ?L by blast
  qed
  show ?thesis
    using b first second unfolding found_def by blast
qed

lemma findall_from_found: "x \<in> set (findall_from b s) \<longleftrightarrow> found b x s"
proof (induction b s rule: findall_from.induct)
  case (1 after_brace)
  then show ?case by (simp add: found_Nil)
next
  case (2 after_brace c cs)
  show ?case
  proof (cases "after_brace \<and> take 1 (dropWhile ident_char (c # cs)) = ''}''")
    case True
    note h = found_here [of after_brace "c # cs" x]
    show ?thesis
    proof (cases "ident_char c")
      case ic: True
      with True 2 have "x \<in> set (findall_from after_brace (c # cs))
          \<longleftrightarrow> x = takeWhile ident_char (c # cs) \<or> found False x (dropWhile ident_char cs)"
        by simp
      with ic h True show ?thesis by simp
    next
      case nc: False
      with True have c: "c = CHR ''}''" by simp
      with True 2 nc have "x \<in> set (findall_from after_brace (c # cs))
          \<longleftrightarrow> x = [] \<or> found False x cs"
        by simp
      moreover have "found False x (c # cs) \<longleftrightarrow> found False x cs"
        using c by (subst found_step) simp_all
      ultimately show ?thesis using h True nc by simp
    qed
  next
    case False
    with 2 have a: "x \<in> set (findall_from after_brace (c # cs)) \<longleftrightarrow> found (c = CHR ''{'') x cs"
      by auto
    have "\<not> (after_brace \<and> (\<exists>post. c # cs = x @ CHR ''}'' # post) \<and> idents x)"
    proof
      assume "after_brace \<and> (\<exists>post. c # cs = x @ CHR ''}'' # post) \<and> idents x"
      then obtain post where "after_brace" "c # cs = x @ CHR ''}'' # post" "idents x" by blast
      then have "after_brace \<and> take 1 (dropWhile ident_char (c # cs)) = ''}''"
        by (simp add: dropWhile_idents)
      with False show False by simp
    qed
    then have "found after_brace x (c # cs) \<longleftrightarrow> found False x (c # cs)"
      by (auto simp: found_def)
    also have "\<dots> \<longleftrightarrow> found (c = CHR ''{'') x cs"
      by (rule found_step) simp
    finally show ?thesis using a by simp
  qed
qed

lemma findall_characterised:
  "set (findall text) = {x. idents x \<and> sublist (braced x) text}"
proof -
  have "(\<exists>pre post. text = pre @ CHR ''{'' # x @ CHR ''}'' # post) \<longleftrightarrow> sublist (braced x) text"
    for x
    by (simp add: braced_def sublist_def)
  then show ?thesis
    by (auto simp: findall_def findall_from_found found_def)
qed

lemma first_brace:
  assumes "CHR ''{'' \<notin> set a" and "a @ CHR ''{'' # r = ps @ CHR ''{'' # t"
  shows "(ps = a \<and> t = r) \<or> (\<exists>ps'. ps = a @ CHR ''{'' # ps' \<and> r = ps' @ CHR ''{'' # t)"
  using assms
proof (induction a arbitrary: ps)
  case Nil
  then show ?case by (cases ps) auto
next
  case (Cons c cs)
  show ?case
  proof (cases ps)
    case Nil
    with Cons.prems show ?thesis by auto
  next
    case (Cons p ps')
    with Cons.prems Cons.IH [of ps'] show ?thesis by auto
  qed
qed

lemma no_brace: "CHR ''{'' \<notin> set a \<Longrightarrow> a \<noteq> ps @ CHR ''{'' # t"
  by auto

lemma idents_prefix_eq:
  assumes "idents x" and "idents f" and "f @ CHR ''}'' # r = x @ CHR ''}'' # ss"
  shows "x = f"
proof -
  have "takeWhile ident_char (f @ CHR ''}'' # r) = f" using assms(2) by (rule takeWhile_idents)
  moreover have "takeWhile ident_char (x @ CHR ''}'' # ss) = x" using assms(1) by (rule takeWhile_idents)
  ultimately show ?thesis using assms(3) by simp
qed

lemma two_entities_only:
  assumes f: "idents f" and g: "idents g"
    and a: "CHR ''{'' \<notin> set a" and b: "CHR ''{'' \<notin> set b" and c: "CHR ''{'' \<notin> set c"
    and x: "idents x" and s: "sublist (braced x) (a @ braced f @ b @ braced g @ c)"
  shows "x = f \<or> x = g"
proof -
  from s obtain ps ss where
    e: "a @ CHR ''{'' # (f @ CHR ''}'' # b @ CHR ''{'' # g @ CHR ''}'' # c) = ps @ CHR ''{'' # (x @ CHR ''}'' # ss)"
    by (auto simp: sublist_def braced_def)
  from first_brace [OF a e]
  show ?thesis
  proof
    assume "ps = a \<and> x @ CHR ''}'' # ss = f @ CHR ''}'' # b @ CHR ''{'' # g @ CHR ''}'' # c"
    then have "f @ CHR ''}'' # (b @ CHR ''{'' # g @ CHR ''}'' # c) = x @ CHR ''}'' # ss" by simp
    with x f have "x = f" by (rule idents_prefix_eq)
    then show ?thesis ..
  next
    assume "\<exists>ps'. ps = a @ CHR ''{'' # ps'
        \<and> f @ CHR ''}'' # b @ CHR ''{'' # g @ CHR ''}'' # c = ps' @ CHR ''{'' # x @ CHR ''}'' # ss"
    then obtain ps' where
      e2: "(f @ CHR ''}'' # b) @ CHR ''{'' # (g @ CHR ''}'' # c) = ps' @ CHR ''{'' # (x @ CHR ''}'' # ss)"
      by auto
    have nf: "CHR ''{'' \<notin> set (f @ CHR ''}'' # b)"
      using f b by (auto simp: idents_def not_ident_braces)
    from first_brace [OF nf e2]
    show ?thesis
    proof
      assume "ps' = f @ CHR ''}'' # b \<and> x @ CHR ''}'' # ss = g @ CHR ''}'' # c"
      then have "g @ CHR ''}'' # c = x @ CHR ''}'' # ss" by simp
      with x g have "x = g" by (rule idents_prefix_eq)
      then show ?thesis ..
    next
      assume "\<exists>ps''. ps' = (f @ CHR ''}'' # b) @ CHR ''{'' # ps''
          \<and> g @ CHR ''}'' # c = ps'' @ CHR ''{'' # x @ CHR ''}'' # ss"
      then obtain ps'' where e3: "g @ CHR ''}'' # c = ps'' @ CHR ''{'' # x @ CHR ''}'' # ss" by blast
      have "CHR ''{'' \<notin> set (g @ CHR ''}'' # c)"
        using g c by (auto simp: idents_def not_ident_braces)
      then have False using e3 by (metis in_set_conv_decomp)
      then show ?thesis ..
    qed
  qed
qed

lemma sublist_braced_first: "sublist (braced f) (a @ braced f @ r)"
  by (rule sublist_appendI)

lemma sublist_braced_second: "sublist (braced g) (a @ braced f @ b @ braced g @ c)"
proof -
  have "a @ braced f @ b @ braced g @ c = (a @ braced f @ b) @ braced g @ c" by simp
  then show ?thesis by (simp only: sublist_appendI)
qed

lemma two_entities_subset:
  assumes f: "idents f" and g: "idents g"
  shows "{f, g} \<subseteq> set (findall (a @ braced f @ b @ braced g @ c))"
proof -
  have "sublist (braced f) (a @ braced f @ b @ braced g @ c)"
    by (rule sublist_braced_first)
  moreover have "sublist (braced g) (a @ braced f @ b @ braced g @ c)"
    by (rule sublist_braced_second)
  ultimately show ?thesis
    using f g unfolding findall_characterised by blast
qed

lemma two_entities_exactly:
  assumes f: "idents f" and g: "idents g"
    and a: "CHR ''{'' \<notin> set a" and b: "CHR ''{'' \<notin> set b" and c: "CHR ''{'' \<notin> set c"
  shows "set (findall (a @ braced f @ b @ braced g @ c)) = {f, g}"
proof
  show "set (findall (a @ braced f @ b @ braced g @ c)) \<subseteq> {f, g}"
  proof
    fix x
    assume "x \<in> set (findall (a @ braced f @ b @ braced g @ c))"
    then have "idents x" and "sublist (braced x) (a @ braced f @ b @ braced g @ c)"
      unfolding findall_characterised by blast+
    with f g a b c have "x = f \<or> x = g" by (rule two_entities_only)
    then show "x \<in> {f, g}" by blast
  qed
  show "{f, g} \<subseteq> set (findall (a @ braced f @ b @ braced g @ c))"
    using f g by (rule two_entities_subset)
qed

lemma line_in_join:
  "x \<in> set xs \<Longrightarrow> sublist (NL @ x @ NL) (NL @ py_join NL xs @ NL)"
proof (induction NL xs rule: py_join.induct)
  case 1
  then show ?case by simp
next
  case (2 y)
  then show ?case by simp
next
  case (3 y z zs)
  show ?case
  proof (cases "x = y")
    case True
    have "NL @ py_join NL (y # z # zs) @ NL = [] @ (NL @ x @ NL) @ py_join NL (z # zs) @ NL"
      using True by simp
    then show ?thesis by (simp only: sublist_appendI)
  next
    case False
    with 3 have "sublist (NL @ x @ NL) (NL @ py_join NL (z # zs) @ NL)" by simp
    then obtain ps ss where "NL @ py_join NL (z # zs) @ NL = ps @ (NL @ x @ NL) @ ss"
      by (auto simp: sublist_def)
    then have "NL @ py_join NL (y # z # zs) @ NL = (NL @ y @ ps) @ (NL @ x @ NL) @ ss"
      by simp
    then show ?thesis by (simp only: sublist_appendI)
  qed
qed

lemma init_template_parts:
  "init_template c i h code =
     (''from mycroft import MycroftSkill, intent_file_handler'' @ NL @ NL @ NL
      @ ''class '' @ c @ ''(MycroftSkill):'' @ NL
      @ ''    def __init__(self):'' @ NL
      @ ''        MycroftSkill.__init__(self)'' @ NL @ NL
      @ ''    @intent_file_handler('' @ SQ @ i @ ''.intent'' @ SQ @ '')'' @ NL
      @ ''    def handle_'' @ h @ ''(self, message):'')
     @ (NL @ code @ NL)
     @ (NL @ NL @ ''def create_skill():'' @ NL @ ''    return '' @ c @ ''()'' @ NL @ NL)"
  unfolding init_template_def by (simp only: append.assoc)

lemma handler_code_in_init_file: "sublist (NL @ handler_code s @ NL) (init_file s)"
  unfolding init_file_def by (subst init_template_parts) (rule sublist_appendI)

lemma finite_entities: "finite (dialog_entities s - intent_entities s)"
  by (simp add: dialog_entities_def)

lemma default_line_in_handler_lines:
  "e \<in> dialog_entities s \<Longrightarrow> e \<notin> intent_entities s \<Longrightarrow>
   e @ '' = '' @ SQ @ SQ \<in> set (handler_lines s)"
  using finite_entities [of s] by (simp add: handler_lines_def)

lemma default_line_in_init_file:
  assumes "e \<in> dialog_entities s" and "e \<notin> intent_entities s"
  shows "sublist (NL @ replicate 8 (CHR '' '') @ e @ '' = '' @ SQ @ SQ @ NL) (init_file s)"
proof -
  let ?indent = "\<lambda>i. (if i \<noteq> [] then replicate 8 (CHR '' '') else []) @ i"
  have "?indent (e @ '' = '' @ SQ @ SQ) \<in> set (map ?indent (handler_lines s))"
    using default_line_in_handler_lines [OF assms] by (simp only: set_map) (rule imageI)
  then have "sublist (NL @ ?indent (e @ '' = '' @ SQ @ SQ) @ NL) (NL @ handler_code s @ NL)"
    unfolding handler_code_def by (rule line_in_join)
  then have "sublist (NL @ replicate 8 (CHR '' '') @ e @ '' = '' @ SQ @ SQ @ NL) (NL @ handler_code s @ NL)"
    by simp
  then show ?thesis
    using handler_code_in_init_file by (rule sublist_order.order.trans)
qed

text \<open>
  C3, amended. The entities extracted from a text are exactly the runs \<open>x\<close> of letters and
  underscores for which \<^verbatim>\<open>{x}\<close> occurs in the text. So a text in which \<^verbatim>\<open>{f}\<close> and
  \<^verbatim>\<open>{g}\<close> occur always yields \<open>f\<close> and \<open>g\<close>, and yields nothing else when the text
  around them has no opening brace. The entity sets of a skill are the entities of its
  capitalized lines joined by line breaks, and every entity of the response lines that is
  no entity of the example phrases has the line \<^verbatim>\<open>ent = ''\<close>, indented by eight blanks, in
  the handler stub.
\<close>

theorem entity_extraction:
  "set (findall text) = {x. idents x \<and> sublist (braced x) text}
   \<and> (idents f \<and> idents g \<longrightarrow> {f, g} \<subseteq> set (findall (a @ braced f @ b @ braced g @ c)))
   \<and> (idents f \<and> idents g \<and> CHR ''{'' \<notin> set a \<and> CHR ''{'' \<notin> set b \<and> CHR ''{'' \<notin> set c \<longrightarrow>
        set (findall (a @ braced f @ b @ braced g @ c)) = {f, g})
   \<and> intent_entities s = set (findall (py_join NL (map capitalize (ans_intent_lines s))))
   \<and> dialog_entities s = set (findall (py_join NL (map capitalize (ans_dialog_lines s))))
   \<and> (e \<in> dialog_entities s \<and> e \<notin> intent_entities s \<longrightarrow>
        sublist (NL @ replicate 8 (CHR '' '') @ e @ '' = '' @ SQ @ SQ @ NL) (init_file s))"
proof (intro conjI impI)
  show "set (findall text) = {x. idents x \<and> sublist (braced x) text}"
    by (rule findall_characterised)
  show "{f, g} \<subseteq> set (findall (a @ braced f @ b @ braced g @ c))" if "idents f \<and> idents g"
    using that by (simp only: two_entities_subset)
  show "set (findall (a @ braced f @ b @ braced g @ c)) = {f, g}"
    if "idents f \<and> idents g \<and> CHR ''{'' \<notin> set a \<and> CHR ''{'' \<notin> set b \<and> CHR ''{'' \<notin> set c"
    using that by (intro two_entities_exactly) simp_all
  show "intent_entities s = set (findall (py_join NL (map capitalize (ans_intent_lines s))))"
    by (simp add: intent_entities_def intent_lines_def)
  show "dialog_entities s = set (findall (py_join NL (map capitalize (ans_dialog_lines s))))"
    by (simp add: dialog_entities_def dialog_lines_def)
  show "sublist (NL @ replicate 8 (CHR '' '') @ e @ '' = '' @ SQ @ SQ @ NL) (init_file s)"
    if "e \<in> dialog_entities s \<and> e \<notin> intent_entities s"
    using that by (intro default_line_in_init_file) simp_all
qed

lemma idents_foo_bar: "idents ''foo'' \<and> idents ''bar''"
  by (simp add: idents_def ident_char_def lower_letters_def)

lemma two_entities_state:
  "''state'' \<in> dialog_entities two_entities \<and> ''state'' \<notin> intent_entities two_entities"
  by code_simp

theorem entity_extraction_witness:
  "idents ''foo'' \<and> idents ''bar''
   \<and> CHR ''{'' \<notin> set ''say '' \<and> CHR ''{'' \<notin> set '' and '' \<and> CHR ''{'' \<notin> set ''!''
   \<and> set (findall (''say '' @ braced ''foo'' @ '' and '' @ braced ''bar'' @ ''!'')) = {''foo'', ''bar''}
   \<and> {''foo'', ''bar''} \<subseteq> set (findall (''{baz}'' @ braced ''foo'' @ ''{'' @ braced ''bar'' @ ''}''))
   \<and> ''state'' \<in> dialog_entities two_entities \<and> ''state'' \<notin> intent_entities two_entities
   \<and> sublist (NL @ replicate 8 (CHR '' '') @ ''state'' @ '' = '' @ SQ @ SQ @ NL) (init_file two_entities)"
proof -
  note a = entity_extraction [of _ "''foo''" "''bar''" "''say ''" "'' and ''" "''!''"
      two_entities "''state''"]
  note b = entity_extraction [of _ "''foo''" "''bar''" "''{baz}''" "''{''" "''}''"
      two_entities "''state''"]
  have n: "CHR ''{'' \<notin> set ''say '' \<and> CHR ''{'' \<notin> set '' and '' \<and> CHR ''{'' \<notin> set ''!''"
    by simp
  from a idents_foo_bar n
  have c1: "set (findall (''say '' @ braced ''foo'' @ '' and '' @ braced ''bar'' @ ''!'')) = {''foo'', ''bar''}"
    by blast
  from b idents_foo_bar
  have c2: "{''foo'', ''bar''} \<subseteq> set (findall (''{baz}'' @ braced ''foo'' @ ''{'' @ braced ''bar'' @ ''}''))"
    by blast
  from a two_entities_state
  have c3: "sublist (NL @ replicate 8 (CHR '' '') @ ''state'' @ '' = '' @ SQ @ SQ @ NL) (init_file two_entities)"
    by blast
  from idents_foo_bar n c1 c2 two_entities_state c3 show ?thesis by blast
qed

text \<open>
  The claim as it stands fails where the surrounding text holds a third entity.
\<close>

theorem entity_extraction_counterexample:
  "set (findall ''{foo} {bar} {baz}'') \<noteq> {''foo'', ''bar''}"
proof
  assume a: "set (findall ''{foo} {bar} {baz}'') = {''foo'', ''bar''}"
  have "''baz'' \<in> set (findall ''{foo} {bar} {baz}'')" by code_simp
  then have "''baz'' \<in> {''foo'', ''bar''}" by (simp only: a)
  then show False by simp
qed

end
